theory Spec2Isabelle
  imports
    Complex_Main
    "HOL-Library.Word"
    "HOL-Library.AList"
    "HOL-Library.Char_ord"
    "HOL-Library.List_Lexorder"
begin

section \<open>Python values\<close>

text \<open>
  The miner is one Python module, \<^verbatim>\<open>Main.py\<close>.  Its blocks are dictionaries with string
  keys whose values are integers (\<^verbatim>\<open>block_number\<close>, \<^verbatim>\<open>nonce\<close>), strings
  (\<^verbatim>\<open>transactions\<close>, \<^verbatim>\<open>previous_hash\<close>, \<^verbatim>\<open>hash\<close>) and floats
  (\<^verbatim>\<open>mining_time\<close>, the halved \<^verbatim>\<open>reward\<close>).

  Python integers are unbounded: \<open>int\<close>.  A finite Python float is represented by the
  rational number it denotes.  The sum and the mean of the mining times are computed in
  double precision, every operation rounded to the nearest double; the halving of the
  reward is the division of these rationals by 2.  Strings are lists of characters with code points below 256.
\<close>

datatype pynum = PyInt int | PyFloat rat

datatype pyval = Num pynum | Str string

datatype pyerr = ZeroDivisionError | ValueError | OverflowError | KeyError | TypeError

text \<open>A dictionary keeps its insertion order: an association list with distinct keys.
  \<^verbatim>\<open>d[k] = v\<close> is \<^const>\<open>AList.update\<close>: the value is replaced in place when the key
  is present and the pair is added at the end otherwise.\<close>

type_synonym pydict = "(string \<times> pyval) list"

definition is_dict :: "pydict \<Rightarrow> bool" where
  "is_dict d = distinct (map fst d)"

text \<open>The numeric value of a Python number, and \<^verbatim>\<open>a < b\<close> for an integer \<open>a\<close>:
  Python compares an integer with a float exactly.\<close>

fun num_value :: "pynum \<Rightarrow> rat" where
  "num_value (PyInt n) = of_int n"
| "num_value (PyFloat q) = q"

fun int_lt :: "int \<Rightarrow> pynum \<Rightarrow> bool" where
  "int_lt a (PyInt b) = (a < b)"
| "int_lt a (PyFloat q) = (of_int a < q)"

section \<open>Configuration constants\<close>

definition DIFFICULTIES :: "(string \<times> int) list" where
  "DIFFICULTIES = [(''Easy'', 2), (''Medium'', 3), (''Hard'', 4)]"

definition HALVING_INTERVAL :: nat where
  "HALVING_INTERVAL = 210000"

definition TARGET_TIME :: int where
  "TARGET_TIME = 10 * 60"

section \<open>The target of a difficulty\<close>

text \<open>
  \<^verbatim>\<open>def calculate_target(difficulty): return 2 ** (256 - difficulty)\<close>

  With a non-negative exponent the power is an integer.  With a negative exponent
  \<open>-k\<close> Python computes the float \<^verbatim>\<open>pow(2.0, -k)\<close>: converting \<open>k\<close> to a float raises
  OverflowError from \<open>2^1024 - 2^970\<close> on, the power is exact down to the smallest
  subnormal \<open>2^-1074\<close> and is \<^verbatim>\<open>0.0\<close> below it.
\<close>

definition calculate_target :: "int \<Rightarrow> pyerr + pynum" where
  "calculate_target difficulty =
     (let e = 256 - difficulty in
      if 0 \<le> e then Inr (PyInt (2 ^ nat e))
      else if 2 ^ 1024 - 2 ^ 970 \<le> - e then Inl OverflowError
      else if - e \<le> 1074 then Inr (PyFloat (1 / 2 ^ nat (- e)))
      else Inr (PyFloat 0))"

section \<open>Partition of the nonce space\<close>

text \<open>
  In \<^verbatim>\<open>mine\<close>:
  \<^verbatim>\<open>
    max_nonce = 2 ** 32
    nonce_step = max_nonce // num_workers
    args = [(block_data.copy(), i * nonce_step, (i + 1) * nonce_step, target, i)
            for i in range(num_workers)]
  \<close>
  \<open>nonce_ranges\<close> is the list of the pairs \<open>(nonce_start, nonce_end)\<close> of \<open>args\<close>;
  \<^verbatim>\<open>range(nonce_start, nonce_end)\<close> is the set \<open>{nonce_start..<nonce_end}\<close>.
\<close>

definition max_nonce :: int where
  "max_nonce = 2 ^ 32"

definition nonce_step :: "int \<Rightarrow> int" where
  "nonce_step num_workers = max_nonce div num_workers"

definition nonce_ranges :: "int \<Rightarrow> (int \<times> int) list" where
  "nonce_ranges num_workers =
     map (\<lambda>i. (i * nonce_step num_workers, (i + 1) * nonce_step num_workers))
       [0..num_workers - 1]"

definition range_set :: "int \<times> int \<Rightarrow> int set" where
  "range_set r = {fst r..<snd r}"

definition covered :: "int \<Rightarrow> int set" where
  "covered num_workers = \<Union> (set (map range_set (nonce_ranges num_workers)))"

section \<open>Serialisation and hashing\<close>

text \<open>
  What the module takes from its libraries and its machine is a parameter of the model:
  \<^item> \<open>sha256 text\<close>, the 256-bit digest \<^verbatim>\<open>sha256(text.encode("ascii")).digest()\<close> read
    as a big-endian number (the serialisation below is ASCII, so the encoding never fails);
  \<^item> \<open>float_repr\<close>, the text \<^verbatim>\<open>json.dumps\<close> writes for a float;
  \<^item> \<open>cpu_count\<close>, the result of \<^verbatim>\<open>multiprocessing.cpu_count()\<close>.
\<close>

record env =
  sha256 :: "string \<Rightarrow> 256 word"
  float_repr :: "rat \<Rightarrow> string"
  cpu_count :: int

definition hex_digit :: "int \<Rightarrow> char" where
  "hex_digit n = ''0123456789abcdef'' ! nat (n mod 16)"

text \<open>\<^verbatim>\<open>hexdigest()\<close>: 64 lower-case hexadecimal digits, the most significant first.\<close>

definition hexdigest :: "256 word \<Rightarrow> string" where
  "hexdigest w = map (\<lambda>i. hex_digit (uint (drop_bit (4 * i) w))) (rev [0..<64])"

text \<open>\<^verbatim>\<open>def SHA256(text): return sha256(text.encode("ascii")).hexdigest()\<close>\<close>

definition SHA256 :: "env \<Rightarrow> string \<Rightarrow> string" where
  "SHA256 env text = hexdigest (sha256 env text)"

text \<open>\<^verbatim>\<open>int(s, 16)\<close> on a string of hexadecimal digits; \<open>None\<close> stands for a string
  that is not one (a digest always is).\<close>

definition hex_value :: "char \<Rightarrow> int option" where
  "hex_value c =
     (let n = int (of_char c) in
      if 48 \<le> n \<and> n \<le> 57 then Some (n - 48)
      else if 97 \<le> n \<and> n \<le> 102 then Some (n - 87)
      else if 65 \<le> n \<and> n \<le> 70 then Some (n - 55)
      else None)"

fun int_base16_from :: "int \<Rightarrow> string \<Rightarrow> int option" where
  "int_base16_from acc [] = Some acc"
| "int_base16_from acc (c # cs) =
     (case hex_value c of None \<Rightarrow> None | Some v \<Rightarrow> int_base16_from (16 * acc + v) cs)"

definition int_base16 :: "string \<Rightarrow> int option" where
  "int_base16 s = (if s = [] then None else int_base16_from 0 s)"

text \<open>The decimal text of an integer, \<^verbatim>\<open>str(n)\<close>.\<close>

function decimal_digits :: "int \<Rightarrow> string" where
  "decimal_digits n =
     (if n < 10 then [hex_digit n] else decimal_digits (n div 10) @ [hex_digit (n mod 10)])"
  by pat_completeness auto
termination
  by (relation "measure nat") auto

definition decimal :: "int \<Rightarrow> string" where
  "decimal n = (if n < 0 then CHR ''-'' # decimal_digits (- n) else decimal_digits n)"

text \<open>
  A JSON string as \<^verbatim>\<open>json.dumps\<close> writes it with its default \<^verbatim>\<open>ensure_ascii=True\<close>:
  the quote and the backslash are escaped, so are the control characters with a short
  form, a printable ASCII character stands for itself, and every other character is
  \<^verbatim>\<open>\uXXXX\<close>.
\<close>

definition escape_char :: "char \<Rightarrow> string" where
  "escape_char c =
     (let n = (of_char c :: int) in
      if n = 34 then [CHR 0x5C, CHR 0x22]
      else if n = 92 then [CHR 0x5C, CHR 0x5C]
      else if n = 8 then [CHR 0x5C, CHR ''b'']
      else if n = 12 then [CHR 0x5C, CHR ''f'']
      else if n = 10 then [CHR 0x5C, CHR ''n'']
      else if n = 13 then [CHR 0x5C, CHR ''r'']
      else if n = 9 then [CHR 0x5C, CHR ''t'']
      else if 32 \<le> n \<and> n \<le> 126 then [c]
      else [CHR 0x5C, CHR ''u'', CHR ''0'', CHR ''0'', hex_digit (n div 16), hex_digit n])"

definition json_string :: "string \<Rightarrow> string" where
  "json_string s = [CHR 0x22] @ concat (map escape_char s) @ [CHR 0x22]"

fun json_value :: "env \<Rightarrow> pyval \<Rightarrow> string" where
  "json_value env (Num (PyInt n)) = decimal n"
| "json_value env (Num (PyFloat q)) = float_repr env q"
| "json_value env (Str s) = json_string s"

definition json_item :: "env \<Rightarrow> string \<times> pyval \<Rightarrow> string" where
  "json_item env kv = json_string (fst kv) @ '': '' @ json_value env (snd kv)"

fun join :: "string \<Rightarrow> string list \<Rightarrow> string" where
  "join sep [] = []"
| "join sep [x] = x"
| "join sep (x # y # ys) = x @ sep @ join sep (y # ys)"

text \<open>
  \<^verbatim>\<open>def to_string(data): return json.dumps(data, sort_keys=True)\<close>

  The items are written in the order of their keys, whatever the order of the
  dictionary; Python orders strings by code point, lexicographically.
\<close>

definition to_string :: "env \<Rightarrow> pydict \<Rightarrow> string" where
  "to_string env data =
     ''{'' @ join '', '' (map (json_item env) (sort_key fst data)) @ ''}''"

section \<open>The nonce search\<close>

text \<open>
  \<^verbatim>\<open>
  def mine_nonce(args):
      block_data, nonce_start, nonce_end, target, queue = args
      for nonce in tqdm(range(nonce_start, nonce_end), desc="Mining", position=queue):
          block_data['nonce'] = nonce
          text = to_string(block_data)
          new_hash = SHA256(text)
          if int(new_hash, 16) < target:
              block_data['hash'] = new_hash
              return block_data
      return None
  \<close>
  The loop is a recursion on the nonce; the dictionary it passes on is the one the
  iteration has written its nonce to.  \<^verbatim>\<open>tqdm\<close> only draws a progress bar.
\<close>

function mine_nonce_loop ::
  "env \<Rightarrow> pydict \<Rightarrow> int \<Rightarrow> int \<Rightarrow> pynum \<Rightarrow> pyerr + pydict option" where
  "mine_nonce_loop env block_data nonce nonce_end target =
     (if nonce < nonce_end then
        (let block_data = AList.update ''nonce'' (Num (PyInt nonce)) block_data;
             text = to_string env block_data;
             new_hash = SHA256 env text
         in case int_base16 new_hash of
              None \<Rightarrow> Inl ValueError
            | Some h \<Rightarrow>
                if int_lt h target
                then Inr (Some (AList.update ''hash'' (Str new_hash) block_data))
                else mine_nonce_loop env block_data (nonce + 1) nonce_end target)
      else Inr None)"
  by pat_completeness auto
termination
  by (relation "measure (\<lambda>(env, block_data, nonce, nonce_end, target). nat (nonce_end - nonce))")
    auto

type_synonym worker_arg = "pydict \<times> int \<times> int \<times> pynum \<times> int"

definition mine_nonce :: "env \<Rightarrow> worker_arg \<Rightarrow> pyerr + pydict option" where
  "mine_nonce env args =
     (case args of (block_data, nonce_start, nonce_end, target, queue) \<Rightarrow>
        mine_nonce_loop env block_data nonce_start nonce_end target)"

text \<open>
  \<^verbatim>\<open>
  def mine(block_data, target_difficulty, num_workers=None):
      if num_workers is None:
          num_workers = cpu_count()
      target = calculate_target(target_difficulty)
      max_nonce = 2 ** 32
      nonce_step = max_nonce // num_workers
      pool = Pool(num_workers)
      args = [(block_data.copy(), i * nonce_step, (i + 1) * nonce_step, target, i)
              for i in range(num_workers)]
      start_time = time.time()
      results = pool.map(mine_nonce, args)
      pool.close(); pool.join()
      elapsed_time = time.time() - start_time
      hash_rate = max_nonce / elapsed_time
      ...
      for result in results:
          if result:
              return result
      return None
  \<close>
  \<open>pool.map\<close> runs every worker to its end and returns the results in the order of
  \<open>args\<close>; an exception of a worker is raised again in the caller.  The division by
  \<open>num_workers\<close> raises ZeroDivisionError, \<^verbatim>\<open>Pool\<close> raises ValueError for a number of
  processes below one, and the hash rate divides by the elapsed wall-clock time, which the
  model takes as an argument.  The hash rate is only logged and stored in
  \<^verbatim>\<open>mining_info\<close>, which the monitoring endpoint alone reads.
\<close>

definition worker_args :: "pydict \<Rightarrow> pynum \<Rightarrow> int \<Rightarrow> worker_arg list" where
  "worker_args block_data target num_workers =
     map (\<lambda>i. (block_data, i * nonce_step num_workers, (i + 1) * nonce_step num_workers,
               target, i))
       [0..num_workers - 1]"

fun pool_map :: "('a \<Rightarrow> pyerr + 'b) \<Rightarrow> 'a list \<Rightarrow> pyerr + 'b list" where
  "pool_map f [] = Inr []"
| "pool_map f (x # xs) =
     (case f x of
        Inl e \<Rightarrow> Inl e
      | Inr y \<Rightarrow> (case pool_map f xs of Inl e \<Rightarrow> Inl e | Inr ys \<Rightarrow> Inr (y # ys)))"

text \<open>\<^verbatim>\<open>if result:\<close> holds for a dictionary that is not empty.\<close>

definition truthy :: "pydict option \<Rightarrow> bool" where
  "truthy result = (case result of None \<Rightarrow> False | Some d \<Rightarrow> d \<noteq> [])"

fun first_result :: "pydict option list \<Rightarrow> pydict option" where
  "first_result [] = None"
| "first_result (result # results) = (if truthy result then result else first_result results)"

definition mine :: "env \<Rightarrow> rat \<Rightarrow> pydict \<Rightarrow> int \<Rightarrow> int option \<Rightarrow> pyerr + pydict option" where
  "mine env elapsed_time block_data target_difficulty num_workers =
     (let num_workers = (case num_workers of None \<Rightarrow> cpu_count env | Some n \<Rightarrow> n) in
      case calculate_target target_difficulty of
        Inl e \<Rightarrow> Inl e
      | Inr target \<Rightarrow>
          if num_workers = 0 then Inl ZeroDivisionError
          else if num_workers < 1 then Inl ValueError
          else
            (case pool_map (mine_nonce env) (worker_args block_data target num_workers) of
               Inl e \<Rightarrow> Inl e
             | Inr results \<Rightarrow>
                 if elapsed_time = 0 then Inl ZeroDivisionError
                 else Inr (first_result results)))"

text \<open>The words of the properties below: the number a nonce hashes to, whether the
  target accepts it, the block a worker returns for it, and the first accepted nonce of
  a range.\<close>

definition with_nonce :: "pydict \<Rightarrow> int \<Rightarrow> pydict" where
  "with_nonce block_data nonce = AList.update ''nonce'' (Num (PyInt nonce)) block_data"

definition digest_int :: "env \<Rightarrow> pydict \<Rightarrow> int \<Rightarrow> int" where
  "digest_int env block_data nonce = uint (sha256 env (to_string env (with_nonce block_data nonce)))"

definition accepted :: "env \<Rightarrow> pydict \<Rightarrow> pynum \<Rightarrow> int \<Rightarrow> bool" where
  "accepted env block_data target nonce = int_lt (digest_int env block_data nonce) target"

definition mined :: "env \<Rightarrow> pydict \<Rightarrow> int \<Rightarrow> pydict" where
  "mined env block_data nonce =
     AList.update ''hash'' (Str (SHA256 env (to_string env (with_nonce block_data nonce))))
       (with_nonce block_data nonce)"

definition first_accepted :: "env \<Rightarrow> pydict \<Rightarrow> pynum \<Rightarrow> int \<Rightarrow> int \<Rightarrow> int \<Rightarrow> bool" where
  "first_accepted env block_data target nonce_start nonce_end n \<longleftrightarrow>
     nonce_start \<le> n \<and> n < nonce_end \<and> accepted env block_data target n \<and>
     (\<forall>m. nonce_start \<le> m \<and> m < n \<longrightarrow> \<not> accepted env block_data target m)"

definition worker_result :: "env \<Rightarrow> pydict \<Rightarrow> pynum \<Rightarrow> int \<Rightarrow> int \<Rightarrow> pyerr + pydict option" where
  "worker_result env block_data target num_workers i =
     mine_nonce env (block_data, i * nonce_step num_workers, (i + 1) * nonce_step num_workers,
       target, i)"

text \<open>The list \<^verbatim>\<open>results\<close> of \<^verbatim>\<open>mine\<close> when no worker raises.\<close>

definition results_of :: "env \<Rightarrow> pydict \<Rightarrow> pynum \<Rightarrow> int \<Rightarrow> pydict option list" where
  "results_of env block_data target num_workers =
     map (\<lambda>i. projr (worker_result env block_data target num_workers i)) [0..num_workers - 1]"

section \<open>Double-precision floats\<close>

text \<open>
  The mining times are Python floats, IEEE 754 doubles, and \<^verbatim>\<open>retarget_difficulty\<close> adds and
  divides them.  A double is written as the rational it denotes, or as one of the two
  infinities that an overflowing addition gives; the sign of a zero is not kept, since no
  comparison sees it, and no operation below yields a NaN (the operands read from the
  chain are finite).

  Every float operation returns the double nearest to the exact result, a tie going to
  the even mantissa: \<open>round_double\<close>.  For \<open>x \<noteq> 0\<close> with \<open>2 ^ e \<le> \<bar>x\<bar> < 2 ^ (e + 1)\<close> the doubles
  around \<open>\<bar>x\<bar>\<close> are the multiples of \<open>2 ^ (e - 52)\<close>, and of \<open>2 ^ (- 1074)\<close> in the
  subnormal range \<open>e < - 1022\<close>; a result rounded to \<open>2 ^ 1024\<close> has overflowed and is
  infinite.
\<close>

datatype pyfloat = Fin rat | PInf | NInf

function log2_floor :: "int \<Rightarrow> int" where
  "log2_floor n = (if n < 2 then 0 else 1 + log2_floor (n div 2))"
  by pat_completeness auto
termination
  by (relation "measure nat") auto

declare log2_floor.simps [simp del]

text \<open>The binary exponent of a positive rational: \<open>2 ^ ilog2 a \<le> a < 2 ^ (ilog2 a + 1)\<close>.\<close>

definition ilog2 :: "rat \<Rightarrow> int" where
  "ilog2 a = (if 1 \<le> a then log2_floor \<lfloor>a\<rfloor> else - (log2_floor (\<lceil>1 / a\<rceil> - 1) + 1))"

definition round_half_even :: "rat \<Rightarrow> int" where
  "round_half_even x =
     (let f = \<lfloor>x\<rfloor>; d = x - of_int f
      in if d < 1 / 2 then f else if 1 / 2 < d then f + 1 else if even f then f else f + 1)"

definition round_double :: "rat \<Rightarrow> pyfloat" where
  "round_double x =
     (if x = 0 then Fin 0
      else
        (let a = \<bar>x\<bar>;
             e = max (ilog2 a) (- 1022);
             ulp = 2 powi (e - 52);
             r = of_int (round_half_even (a / ulp)) * ulp
         in if 2 powi 1024 \<le> r then (if 0 < x then PInf else NInf)
            else Fin (if 0 < x then r else - r)))"

text \<open>\<^verbatim>\<open>a + x\<close> and \<^verbatim>\<open>a / 10\<close> for a float \<open>a\<close> and a finite \<open>x\<close>, and the comparison of a float
  with an integer, which Python makes on the exact values.\<close>

fun float_add :: "pyfloat \<Rightarrow> rat \<Rightarrow> pyfloat" where
  "float_add (Fin a) x = round_double (a + x)"
| "float_add PInf x = PInf"
| "float_add NInf x = NInf"

fun float_div_10 :: "pyfloat \<Rightarrow> pyfloat" where
  "float_div_10 (Fin a) = round_double (a / 10)"
| "float_div_10 PInf = PInf"
| "float_div_10 NInf = NInf"

fun float_less :: "pyfloat \<Rightarrow> int \<Rightarrow> bool" where
  "float_less (Fin a) n \<longleftrightarrow> a < of_int n"
| "float_less PInf n \<longleftrightarrow> False"
| "float_less NInf n \<longleftrightarrow> True"

fun float_greater :: "pyfloat \<Rightarrow> int \<Rightarrow> bool" where
  "float_greater (Fin a) n \<longleftrightarrow> a > of_int n"
| "float_greater PInf n \<longleftrightarrow> True"
| "float_greater NInf n \<longleftrightarrow> False"

section \<open>The chain and the reward\<close>

text \<open>
  The module's globals \<^verbatim>\<open>CHAIN = []\<close> and \<^verbatim>\<open>REWARD = 50\<close> are the state; each function
  that touches them takes the state and returns it.
\<close>

record state =
  CHAIN :: "pydict list"
  REWARD :: pynum

definition initial_state :: state where
  "initial_state = \<lparr>CHAIN = [], REWARD = PyInt 50\<rparr>"

text \<open>
  \<^verbatim>\<open>
  def add_block_to_chain(block):
      CHAIN.append(block)
      logging.info(f"Block {block['block_number']} added to the blockchain.")
  \<close>
  The block is appended first; the log line then raises KeyError for a block without a
  \<^verbatim>\<open>block_number\<close>.
\<close>

definition add_block_to_chain :: "pydict \<Rightarrow> state \<Rightarrow> (pyerr + unit) \<times> state" where
  "add_block_to_chain block s =
     (let s = s\<lparr>CHAIN := CHAIN s @ [block]\<rparr> in
      case map_of block ''block_number'' of
        None \<Rightarrow> (Inl KeyError, s)
      | Some _ \<Rightarrow> (Inr (), s))"

text \<open>
  \<^verbatim>\<open>
  def retarget_difficulty():
      if len(CHAIN) > 1 and len(CHAIN) % 10 == 0:
          avg_time = sum(block['mining_time'] for block in CHAIN[-10:]) / 10
          if avg_time < TARGET_TIME:
              return 1
          elif avg_time > TARGET_TIME:
              return -1
      return 0
  \<close>
  \<^verbatim>\<open>CHAIN[-10:]\<close> is the chain without its first \<^verbatim>\<open>len(CHAIN) - 10\<close> blocks, the whole chain
  when it has fewer than ten.  \<^verbatim>\<open>sum\<close> starts at the integer 0 and adds the mining times
  from the left with \<^verbatim>\<open>+\<close>, one addition for each block: integers add exactly, an integer
  that meets a float is converted to a float first (OverflowError when it is too large
  for one), and floats add with rounding.  This is the built-in \<^verbatim>\<open>sum\<close> of CPython up to
  version 3.11; later versions carry a compensation term through the float additions,
  which is not modelled.  A block without \<^verbatim>\<open>mining_time\<close> raises KeyError, a string there
  raises TypeError.  The division by 10 is Python's true division, rounded to a float
  (OverflowError for an integer sum too large for one).
\<close>

datatype pysum = IntSum int | FloatSum pyfloat

definition int_to_float :: "int \<Rightarrow> pyerr + rat" where
  "int_to_float n = (case round_double (of_int n) of Fin q \<Rightarrow> Inr q | _ \<Rightarrow> Inl OverflowError)"

fun py_add :: "pysum \<Rightarrow> pynum \<Rightarrow> pyerr + pysum" where
  "py_add (IntSum a) (PyInt n) = Inr (IntSum (a + n))"
| "py_add (IntSum a) (PyFloat x) =
     (case int_to_float a of
        Inl e \<Rightarrow> Inl e
      | Inr q \<Rightarrow> Inr (FloatSum (float_add (Fin q) x)))"
| "py_add (FloatSum f) (PyInt n) =
     (case int_to_float n of
        Inl e \<Rightarrow> Inl e
      | Inr q \<Rightarrow> Inr (FloatSum (float_add f q)))"
| "py_add (FloatSum f) (PyFloat x) = Inr (FloatSum (float_add f x))"

fun sum_mining_time :: "pysum \<Rightarrow> pydict list \<Rightarrow> pyerr + pysum" where
  "sum_mining_time acc [] = Inr acc"
| "sum_mining_time acc (block # blocks) =
     (case map_of block ''mining_time'' of
        None \<Rightarrow> Inl KeyError
      | Some (Str _) \<Rightarrow> Inl TypeError
      | Some (Num t) \<Rightarrow>
          (case py_add acc t of
             Inl e \<Rightarrow> Inl e
           | Inr acc' \<Rightarrow> sum_mining_time acc' blocks))"

fun true_divide_10 :: "pysum \<Rightarrow> pyerr + pyfloat" where
  "true_divide_10 (IntSum a) =
     (case round_double (of_int a / 10) of Fin q \<Rightarrow> Inr (Fin q) | _ \<Rightarrow> Inl OverflowError)"
| "true_divide_10 (FloatSum f) = Inr (float_div_10 f)"

definition retarget_difficulty :: "state \<Rightarrow> (pyerr + int) \<times> state" where
  "retarget_difficulty s =
     (if length (CHAIN s) > 1 \<and> length (CHAIN s) mod 10 = 0 then
        (case sum_mining_time (IntSum 0) (drop (length (CHAIN s) - 10) (CHAIN s)) of
           Inl e \<Rightarrow> (Inl e, s)
         | Inr time_sum \<Rightarrow>
             (case true_divide_10 time_sum of
                Inl e \<Rightarrow> (Inl e, s)
              | Inr avg_time \<Rightarrow>
                  if float_less avg_time TARGET_TIME then (Inr 1, s)
                  else if float_greater avg_time TARGET_TIME then (Inr (- 1), s)
                  else (Inr 0, s)))
      else (Inr 0, s))"

text \<open>
  The endpoint \<^verbatim>\<open>/mine\<close>.  The request carries the optional fields \<^verbatim>\<open>difficulty\<close>,
  \<^verbatim>\<open>num_workers\<close> and \<^verbatim>\<open>transactions\<close>; the two clock readings (the elapsed time
  inside \<^verbatim>\<open>mine\<close> and the total time of the request) are arguments.
  \<^verbatim>\<open>
  def start_mining():
      global REWARD
      data = request.json
      difficulty = data.get('difficulty', 'Medium')
      num_workers = data.get('num_workers', None)
      block_number = len(CHAIN) + 1
      previous_hash = CHAIN[-1]['hash'] if CHAIN else '0' * 64
      transactions = data.get('transactions', "Example transaction")
      block_data = {"block_number": block_number, "transactions": transactions,
                    "previous_hash": previous_hash}
      target_difficulty = DIFFICULTIES[difficulty]
      ...
      mined_block = mine(block_data, target_difficulty, num_workers)
      if mined_block:
          total_time = time.time() - start_time
          mined_block['mining_time'] = total_time
          mined_block['reward'] = REWARD
          save_block_data(mined_block, f"block_{block_number}.json")
          add_block_to_chain(mined_block)
          if len(CHAIN) % HALVING_INTERVAL == 0:
              REWARD /= 2
          difficulty_adjustment = retarget_difficulty()
          ...
          return jsonify(mined_block), 200
      else:
          return jsonify({"error": "Failed to mine the block"}), 500
  \<close>
  Writing the block to a file, the log and \<^verbatim>\<open>mining_info\<close> are left out.  Requests are
  served one at a time.
\<close>

record request =
  req_difficulty :: "string option"
  req_num_workers :: "int option"
  req_transactions :: "string option"

datatype response = Mined pydict | Failed

text \<open>\<^verbatim>\<open>REWARD /= 2\<close>: true division, a float.\<close>

definition halve :: "pynum \<Rightarrow> pynum" where
  "halve r = PyFloat (num_value r / 2)"

definition genesis_hash :: string where
  "genesis_hash = replicate 64 CHR ''0''"

definition previous_hash_of :: "pydict list \<Rightarrow> pyerr + pyval" where
  "previous_hash_of chain =
     (if chain \<noteq> [] then
        (case map_of (last chain) ''hash'' of None \<Rightarrow> Inl KeyError | Some h \<Rightarrow> Inr h)
      else Inr (Str genesis_hash))"

definition credit :: "rat \<Rightarrow> pynum \<Rightarrow> pydict \<Rightarrow> pydict" where
  "credit total_time reward mined_block =
     AList.update ''reward'' (Num reward)
       (AList.update ''mining_time'' (Num (PyFloat total_time)) mined_block)"

text \<open>The part of \<^verbatim>\<open>start_mining\<close> after a successful search.\<close>

definition record_block :: "rat \<Rightarrow> pydict \<Rightarrow> state \<Rightarrow> (pyerr + response) \<times> state" where
  "record_block total_time found s =
     (let mined_block = credit total_time (REWARD s) found;
          (logged, s) = add_block_to_chain mined_block s
      in case logged of
           Inl e \<Rightarrow> (Inl e, s)
         | Inr _ \<Rightarrow>
             (let s = (if length (CHAIN s) mod HALVING_INTERVAL = 0
                       then s\<lparr>REWARD := halve (REWARD s)\<rparr> else s);
                  (difficulty_adjustment, s) = retarget_difficulty s
              in case difficulty_adjustment of
                   Inl e \<Rightarrow> (Inl e, s)
                 | Inr _ \<Rightarrow> (Inr (Mined mined_block), s)))"

definition start_mining ::
  "env \<Rightarrow> rat \<Rightarrow> rat \<Rightarrow> request \<Rightarrow> state \<Rightarrow> (pyerr + response) \<times> state" where
  "start_mining env elapsed_time total_time data s =
     (let difficulty = (case req_difficulty data of None \<Rightarrow> ''Medium'' | Some d \<Rightarrow> d);
          num_workers = req_num_workers data;
          block_number = int (length (CHAIN s)) + 1
      in case previous_hash_of (CHAIN s) of
           Inl e \<Rightarrow> (Inl e, s)
         | Inr previous_hash \<Rightarrow>
             (let transactions =
                    (case req_transactions data of
                       None \<Rightarrow> ''Example transaction'' | Some t \<Rightarrow> t);
                  block_data = [(''block_number'', Num (PyInt block_number)),
                                (''transactions'', Str transactions),
                                (''previous_hash'', previous_hash)]
              in case map_of DIFFICULTIES difficulty of
                   None \<Rightarrow> (Inl KeyError, s)
                 | Some target_difficulty \<Rightarrow>
                     (case mine env elapsed_time block_data target_difficulty num_workers of
                        Inl e \<Rightarrow> (Inl e, s)
                      | Inr mined_block \<Rightarrow>
                          if truthy mined_block
                          then record_block total_time (the mined_block) s
                          else (Inr Failed, s))))"

text \<open>
  The script's own first block, mined before the server starts:
  \<^verbatim>\<open>
      mined_block = mine(block_data, target_difficulty, args.num_workers)
      if mined_block:
          total_time = time.time() - start_time
          mined_block['mining_time'] = total_time
          mined_block['reward'] = REWARD
          save_block_data(mined_block, args.save_file)
          add_block_to_chain(mined_block)
  \<close>
  \<open>block_data\<close> comes from the command line (\<^verbatim>\<open>--previous_hash\<close> has the default
  below) or from a file.
\<close>

definition default_previous_hash :: string where
  "default_previous_hash = ''0000000xa036944e29568d0cff17edbe038f81208fecf9a66be9a2b8321c6ec7''"

definition main_script ::
  "env \<Rightarrow> rat \<Rightarrow> rat \<Rightarrow> pydict \<Rightarrow> string \<Rightarrow> int option \<Rightarrow> state \<Rightarrow> (pyerr + unit) \<times> state" where
  "main_script env elapsed_time total_time block_data difficulty workers s =
     (case map_of DIFFICULTIES difficulty of
        None \<Rightarrow> (Inl KeyError, s)
      | Some target_difficulty \<Rightarrow>
          (case map_of block_data ''block_number'' of
             None \<Rightarrow> (Inl KeyError, s)
           | Some _ \<Rightarrow>
               (case mine env elapsed_time block_data target_difficulty workers of
                  Inl e \<Rightarrow> (Inl e, s)
                | Inr mined_block \<Rightarrow>
                    if truthy mined_block
                    then add_block_to_chain (credit total_time (REWARD s) (the mined_block)) s
                    else (Inr (), s))))"

text \<open>A run of the program: the script's first block, then the requests in turn.  A
  request that ends in an exception leaves the state as the exception left it.\<close>

fun serve :: "env \<Rightarrow> (rat \<times> rat \<times> request) list \<Rightarrow> state \<Rightarrow> state" where
  "serve env [] s = s"
| "serve env ((elapsed_time, total_time, data) # rest) s =
     serve env rest (snd (start_mining env elapsed_time total_time data s))"

definition run ::
  "env \<Rightarrow> rat \<times> rat \<times> pydict \<times> string \<times> int option \<Rightarrow> (rat \<times> rat \<times> request) list \<Rightarrow> state" where
  "run env first requests =
     (case first of (elapsed_time, total_time, block_data, difficulty, workers) \<Rightarrow>
        serve env requests
          (snd (main_script env elapsed_time total_time block_data difficulty workers
                  initial_state)))"

definition reward_of :: "pydict \<Rightarrow> pyval option" where
  "reward_of block = map_of block ''reward''"

text \<open>The words of the properties of the chain.  A block records a float mining time, as
  every block that the program appends does; \<open>float_mean ts\<close> is the mean of the times
  \<open>ts\<close> as \<^verbatim>\<open>retarget_difficulty\<close> computes it, the times added to 0 from the left, every
  addition rounded, and the sum divided by 10 and rounded; \<open>is_double x\<close> says that \<open>x\<close> is a
  double, so that rounding leaves it as it is, and \<open>exact_additions 0 ts\<close> that none of
  these additions rounds, every partial sum being a double.  The reward that the
  halving schedule gives the block at position \<open>i\<close> of the chain (counted from 0) is the
  initial 50 halved once for every full interval before it.\<close>

definition has_float_time :: "pydict \<Rightarrow> bool" where
  "has_float_time block =
     (case map_of block ''mining_time'' of Some (Num (PyFloat t)) \<Rightarrow> True | _ \<Rightarrow> False)"






definition reward_at :: "nat \<Rightarrow> pynum" where
  "reward_at i = (halve ^^ (i div HALVING_INTERVAL)) (PyInt 50)"

definition reward_schedule :: "state \<Rightarrow> bool" where
  "reward_schedule s \<longleftrightarrow>
     REWARD s = reward_at (length (CHAIN s)) \<and>
     (\<forall>i<length (CHAIN s). reward_of (CHAIN s ! i) = Some (Num (reward_at i)))"

section \<open>The search on a store of dictionaries\<close>

text \<open>
  A Python dictionary is an object, and \<^verbatim>\<open>mine_nonce\<close> writes into the one it is given.
  To say which object a write reaches, the search is modelled a second time with the
  dictionaries in a store: a reference is an index into the list of all objects,
  \<^verbatim>\<open>block_data.copy()\<close> allocates a new object with the same items, and
  \<^verbatim>\<open>block_data[k] = v\<close> updates the object in place.  The workers run one after the other
  on the one store (\<^verbatim>\<open>multiprocessing\<close> would in addition give each worker process a
  pickled copy of its argument).
\<close>

type_synonym ref = nat
type_synonym store = "pydict list"
type_synonym worker_arg_ref = "ref \<times> int \<times> int \<times> pynum \<times> int"

definition dict_copy :: "ref \<Rightarrow> store \<Rightarrow> ref \<times> store" where
  "dict_copy r st = (length st, st @ [st ! r])"

definition dict_set :: "ref \<Rightarrow> string \<Rightarrow> pyval \<Rightarrow> store \<Rightarrow> store" where
  "dict_set r k v st = st[r := AList.update k v (st ! r)]"

function mine_nonce_loop_ref ::
  "env \<Rightarrow> ref \<Rightarrow> int \<Rightarrow> int \<Rightarrow> pynum \<Rightarrow> store \<Rightarrow> (pyerr + ref option) \<times> store" where
  "mine_nonce_loop_ref env block_data nonce nonce_end target st =
     (if nonce < nonce_end then
        (let st = dict_set block_data ''nonce'' (Num (PyInt nonce)) st;
             text = to_string env (st ! block_data);
             new_hash = SHA256 env text
         in case int_base16 new_hash of
              None \<Rightarrow> (Inl ValueError, st)
            | Some h \<Rightarrow>
                if int_lt h target
                then (Inr (Some block_data), dict_set block_data ''hash'' (Str new_hash) st)
                else mine_nonce_loop_ref env block_data (nonce + 1) nonce_end target st)
      else (Inr None, st))"
  by pat_completeness auto
termination
  by (relation
      "measure (\<lambda>(env, block_data, nonce, nonce_end, target, st). nat (nonce_end - nonce))")
    auto

definition mine_nonce_ref ::
  "env \<Rightarrow> worker_arg_ref \<Rightarrow> store \<Rightarrow> (pyerr + ref option) \<times> store" where
  "mine_nonce_ref env args st =
     (case args of (block_data, nonce_start, nonce_end, target, queue) \<Rightarrow>
        mine_nonce_loop_ref env block_data nonce_start nonce_end target st)"

text \<open>The list comprehension of \<^verbatim>\<open>mine\<close>: one copy per worker, in the order of the
  workers.\<close>

fun worker_args_ref ::
  "ref \<Rightarrow> pynum \<Rightarrow> int \<Rightarrow> int list \<Rightarrow> store \<Rightarrow> worker_arg_ref list \<times> store" where
  "worker_args_ref block_data target step [] st = ([], st)"
| "worker_args_ref block_data target step (i # rest) st =
     (let (c, st) = dict_copy block_data st;
          (args, st) = worker_args_ref block_data target step rest st
      in ((c, i * step, (i + 1) * step, target, i) # args, st))"

fun pool_map_ref ::
  "env \<Rightarrow> worker_arg_ref list \<Rightarrow> store \<Rightarrow> (pyerr + ref option list) \<times> store" where
  "pool_map_ref env [] st = (Inr [], st)"
| "pool_map_ref env (a # rest) st =
     (case mine_nonce_ref env a st of
        (Inl e, st) \<Rightarrow> (Inl e, st)
      | (Inr y, st) \<Rightarrow>
          (case pool_map_ref env rest st of
             (Inl e, st) \<Rightarrow> (Inl e, st)
           | (Inr ys, st) \<Rightarrow> (Inr (y # ys), st)))"

fun first_result_ref :: "store \<Rightarrow> ref option list \<Rightarrow> ref option" where
  "first_result_ref st [] = None"
| "first_result_ref st (result # results) =
     (if truthy (map_option ((!) st) result) then result else first_result_ref st results)"

definition mine_ref ::
  "env \<Rightarrow> rat \<Rightarrow> ref \<Rightarrow> int \<Rightarrow> int option \<Rightarrow> store \<Rightarrow> (pyerr + ref option) \<times> store" where
  "mine_ref env elapsed_time block_data target_difficulty num_workers st =
     (let num_workers = (case num_workers of None \<Rightarrow> cpu_count env | Some n \<Rightarrow> n) in
      case calculate_target target_difficulty of
        Inl e \<Rightarrow> (Inl e, st)
      | Inr target \<Rightarrow>
          if num_workers = 0 then (Inl ZeroDivisionError, st)
          else if num_workers < 1 then (Inl ValueError, st)
          else
            (let (args, st) =
                   worker_args_ref block_data target (nonce_step num_workers)
                     [0..num_workers - 1] st
             in case pool_map_ref env args st of
                  (Inl e, st) \<Rightarrow> (Inl e, st)
                | (Inr results, st) \<Rightarrow>
                    if elapsed_time = 0 then (Inl ZeroDivisionError, st)
                    else (Inr (first_result_ref st results), st)))"

text \<open>The result of the search on items, as the search on the store returns it: the
  reference of the worker's dictionary in place of the dictionary.\<close>

definition ref_result :: "ref \<Rightarrow> pyerr + pydict option \<Rightarrow> pyerr + ref option" where
  "ref_result a r = map_sum id (map_option (\<lambda>_. a)) r"

section \<open>Examples\<close>

text \<open>
  The inputs of the concrete instances below: the template of the specification's
  scenario, a reordering of it, and a stand-in for SHA-256 that can be computed by hand
  (a text with the digit 7 in it hashes to \<open>2^250\<close>, any other text to \<open>2^256 - 1\<close>).
\<close>

definition example_template :: pydict where
  "example_template =
     [(''block_number'', Num (PyInt 1)), (''transactions'', Str ''A->B:10''),
      (''previous_hash'', Str genesis_hash)]"

definition example_reordered :: pydict where
  "example_reordered =
     [(''previous_hash'', Str genesis_hash), (''block_number'', Num (PyInt 1)),
      (''transactions'', Str ''A->B:10'')]"

definition example_env :: env where
  "example_env =
     \<lparr>sha256 = (\<lambda>text. if CHR ''7'' \<in> set text then 2 ^ 250 else - 1),
      float_repr = (\<lambda>q. ''0.0''),
      cpu_count = 4\<rparr>"

text \<open>A second stand-in hashes every text to 0, so that every nonce is accepted; the
  block of the script's command-line defaults, as the first worker of four returns it
  with that digest; and a block that took 100 seconds to mine.\<close>

definition zero_env :: env where
  "zero_env = \<lparr>sha256 = (\<lambda>text. 0), float_repr = (\<lambda>q. ''0.0''), cpu_count = 4\<rparr>"

definition default_block :: pydict where
  "default_block =
     [(''block_number'', Num (PyInt 5)),
      (''transactions'', Str ''Dhaval->Bhavin->20,Mando->Cara->45''),
      (''previous_hash'', Str default_previous_hash),
      (''nonce'', Num (PyInt 0)),
      (''hash'', Str (hexdigest 0)),
      (''mining_time'', Num (PyFloat 2)),
      (''reward'', Num (PyInt 50))]"





definition example_request :: request where
  "example_request = \<lparr>req_difficulty = None, req_num_workers = Some 2, req_transactions = None\<rparr>"

section \<open>Properties of the target\<close>

declare mine_nonce_loop.simps [simp del]
declare mine_nonce_loop_ref.simps [simp del]
declare decimal_digits.simps [simp del]

lemma DIFFICULTIES_supported: "snd ` set DIFFICULTIES = {2, 3, 4}"
  by (auto simp: DIFFICULTIES_def)

lemma calculate_target_int:
  "difficulty \<le> 256 \<Longrightarrow> calculate_target difficulty = Inr (PyInt (2 ^ nat (256 - difficulty)))"
  by (simp add: calculate_target_def)

text \<open>
  C7.  For every difficulty up to 256, and so for the supported difficulties 2, 3 and 4,
  the target is the integer \<open>2 ^ (256 - difficulty)\<close>, and of two such difficulties the
  greater has the strictly smaller target.
\<close>

theorem calculate_target_power:
  assumes "d \<le> 256" and "d' \<le> 256"
  shows "\<exists>t t'. calculate_target d = Inr (PyInt t) \<and> calculate_target d' = Inr (PyInt t') \<and>
           t = 2 ^ nat (256 - d) \<and> t' = 2 ^ nat (256 - d') \<and> (d < d' \<longrightarrow> t' < t)"
proof -
  have "d < d' \<Longrightarrow> (2::int) ^ nat (256 - d') < 2 ^ nat (256 - d)"
    using assms by (intro power_strict_increasing) auto
  then show ?thesis
    using assms by (simp add: calculate_target_int)
qed

theorem calculate_target_power_witness:
  "(2::int) \<le> 256 \<and> (3::int) \<le> 256 \<and>
   calculate_target 2 = Inr (PyInt (2 ^ 254)) \<and> calculate_target 3 = Inr (PyInt (2 ^ 253)) \<and>
   (\<exists>t t'. calculate_target 2 = Inr (PyInt t) \<and> calculate_target 3 = Inr (PyInt t') \<and>
      t = 2 ^ nat (256 - 2) \<and> t' = 2 ^ nat (256 - 3) \<and> t' < t)"
  using calculate_target_power [of 2 3] by (simp add: calculate_target_def)

section \<open>Properties of the partition\<close>

lemma div_block_bounds:
  fixes x s :: int
  assumes "0 < s"
  shows "(x div s) * s \<le> x" and "x < (x div s + 1) * s"
proof -
  have e: "(x div s) * s + x mod s = x" by simp
  have m: "0 \<le> x mod s" "x mod s < s" using assms by simp_all
  show "(x div s) * s \<le> x" using e m by linarith
  have "(x div s + 1) * s = (x div s) * s + s" by (simp add: algebra_simps)
  then show "x < (x div s + 1) * s" using e m by linarith
qed

lemma div_block_less:
  fixes x s m :: int
  assumes "0 < s" "x < m * s"
  shows "x div s < m"
proof (rule ccontr)
  assume "\<not> x div s < m"
  then have "m * s \<le> (x div s) * s" using assms by (intro mult_right_mono) auto
  then show False using div_block_bounds(1)[OF assms(1), of x] assms(2) by linarith
qed

lemma set_nonce_ranges:
  "set (map range_set (nonce_ranges n)) =
     (\<lambda>i. {i * nonce_step n..<(i + 1) * nonce_step n}) ` {0..<n}"
  by (auto simp: nonce_ranges_def range_set_def image_iff)

lemma blocks_union:
  fixes s m :: int
  assumes "0 \<le> s" "0 \<le> m"
  shows "(\<Union>i\<in>{0..<m}. {i * s..<(i + 1) * s}) = {0..<m * s}"
proof (intro equalityI subsetI)
  fix x assume "x \<in> (\<Union>i\<in>{0..<m}. {i * s..<(i + 1) * s})"
  then obtain i where i: "0 \<le> i" "i < m" "i * s \<le> x" "x < (i + 1) * s" by auto
  have "0 \<le> i * s" using i assms by simp
  moreover have "(i + 1) * s \<le> m * s" using i assms by (intro mult_right_mono) auto
  ultimately show "x \<in> {0..<m * s}" using i by auto
next
  fix x assume x: "x \<in> {0..<m * s}"
  then have s: "0 < s" using assms by (cases "s = 0") auto
  let ?i = "x div s"
  have "0 \<le> ?i" using x s by (simp add: pos_imp_zdiv_nonneg_iff)
  moreover have "?i < m" using x s div_block_less[of s x m] by simp
  moreover have "?i * s \<le> x" "x < (?i + 1) * s" using div_block_bounds[OF s, of x] by simp_all
  ultimately show "x \<in> (\<Union>i\<in>{0..<m}. {i * s..<(i + 1) * s})" by auto
qed

lemma nonce_step_nonneg: "1 \<le> n \<Longrightarrow> 0 \<le> nonce_step n"
  by (simp add: nonce_step_def max_nonce_def pos_imp_zdiv_nonneg_iff)

text \<open>The ranges of \<open>n\<close> workers are contiguous and pairwise disjoint, and together
  they are the nonces below \<open>n * (2^32 div n)\<close>.\<close>

lemma ranges_contiguous:
  assumes "Suc i < length (nonce_ranges n)"
  shows "snd (nonce_ranges n ! i) = fst (nonce_ranges n ! Suc i)"
  using assms by (simp add: nonce_ranges_def algebra_simps)

lemma ranges_disjoint:
  assumes "1 \<le> n" "i < j" "j < length (nonce_ranges n)"
  shows "range_set (nonce_ranges n ! i) \<inter> range_set (nonce_ranges n ! j) = {}"
proof -
  have "(int i + 1) * nonce_step n \<le> int j * nonce_step n"
    using assms nonce_step_nonneg[OF assms(1)] by (intro mult_right_mono) auto
  then show ?thesis using assms by (auto simp: nonce_ranges_def range_set_def)
qed

lemma covered_eq:
  assumes "1 \<le> n"
  shows "covered n = {0..<n * nonce_step n}"
  unfolding covered_def set_nonce_ranges
  using blocks_union[of "nonce_step n" n] nonce_step_nonneg[OF assms] assms by simp

lemma covered_le: "1 \<le> n \<Longrightarrow> n * nonce_step n \<le> max_nonce"
  unfolding nonce_step_def
  by (metis mult.commute div_block_bounds(1) less_le_trans zero_less_one)

lemma covered_all_iff:
  assumes "1 \<le> n"
  shows "covered n = {0..<max_nonce} \<longleftrightarrow> max_nonce mod n = 0"
proof -
  have e: "n * nonce_step n + max_nonce mod n = max_nonce"
    by (simp add: nonce_step_def)
  have m: "0 \<le> max_nonce mod n" using assms by simp
  have "0 < max_nonce" by (simp add: max_nonce_def)
  then have "{0..<n * nonce_step n} = {0..<max_nonce} \<longleftrightarrow> n * nonce_step n = max_nonce"
    by (metis atLeastLessThan_inj(2) atLeastLessThan_empty_iff2)
  then show ?thesis using e m covered_eq[OF assms] by auto
qed

lemma worker_args_ranges:
  "map (\<lambda>(block_data, nonce_start, nonce_end, target, queue). (nonce_start, nonce_end))
     (worker_args block_data target n) = nonce_ranges n"
  by (simp add: worker_args_def nonce_ranges_def)

text \<open>
  C1.  With three workers the step is \<open>2^32 div 3 = 1431655765\<close>, the three ranges end at
  \<open>3 * 1431655765 = 2^32 - 1\<close>, and the last nonce \<open>4294967295\<close> of the nonce space is in
  no worker's range: the last range does not take the remainder of the division.
\<close>

theorem mine_ranges_drop_remainder:
  "nonce_ranges 3 = [(0, 1431655765), (1431655765, 2863311530), (2863311530, 4294967295)] \<and>
   covered 3 = {0..<4294967295} \<and> 4294967295 \<notin> covered 3 \<and> 4294967295 \<in> {0..<max_nonce}"
proof -
  have "nonce_ranges 3 = [(0, 1431655765), (1431655765, 2863311530), (2863311530, 4294967295)]"
    by (simp add: nonce_ranges_def nonce_step_def max_nonce_def upto.simps)
  moreover have "covered 3 = {0..<4294967295}"
    using covered_eq[of 3] by (simp add: nonce_step_def max_nonce_def)
  ultimately show ?thesis by (simp add: max_nonce_def)
qed

section \<open>Properties of the serialisation and of the digest\<close>

lemma hex_value_hex_digit: "hex_value (hex_digit n) = Some (n mod 16)"
proof -
  have "nat (n mod 16) \<in> set [0..<16]" by simp
  moreover have "n mod 16 = int (nat (n mod 16))" by simp
  ultimately show ?thesis
    unfolding hex_digit_def hex_value_def
    apply (simp add: upt_rec[of _ "numeral _"] upt_rec[of _ "Suc _"] del: int_nat_eq)
    apply (elim disjE; simp)
    done
qed

lemma int_base16_from_digits:
  "0 \<le> m \<Longrightarrow> int_base16_from acc (map (\<lambda>i. hex_digit (m div 16 ^ i)) (rev [0..<k]))
     = Some (acc * 16 ^ k + m mod 16 ^ k)"
proof (induction k arbitrary: acc)
  case 0
  then show ?case by simp
next
  case (Suc k)
  have "m mod (16 ^ k * 16) = 16 ^ k * (m div 16 ^ k mod 16) + m mod 16 ^ k"
    using zmod_zmult2_eq[of 16 m "16 ^ k"] by simp
  then have "m mod 16 ^ Suc k = 16 ^ k * (m div 16 ^ k mod 16) + m mod 16 ^ k"
    by (simp add: mult.commute)
  then show ?case using Suc.prems
    by (simp add: hex_value_hex_digit Suc.IH algebra_simps)
qed

lemma hexdigest_digits:
  "hexdigest w = map (\<lambda>i. hex_digit (uint w div 16 ^ i)) (rev [0..<64])"
proof -
  have "uint (drop_bit (4 * i) w) = uint w div 16 ^ i" for i
  proof -
    have "unat (drop_bit (4 * i) w) = unat w div 2 ^ (4 * i)"
      by (rule trans[OF unat_drop_bit_eq drop_bit_eq_div])
    then have "int (unat (drop_bit (4 * i) w)) = int (unat w) div 2 ^ (4 * i)"
      by (simp only: zdiv_int of_nat_power of_nat_numeral)
    moreover have "(2::int) ^ (4 * i) = 16 ^ i"
      by (simp add: power_mult)
    ultimately show ?thesis by (simp only: of_nat_unat)
  qed
  then show ?thesis by (simp add: hexdigest_def)
qed

text \<open>The digest's 64 digits read back as the number they were written from.\<close>

lemma length_hexdigest: "length (hexdigest w) = 64"
  by (simp add: hexdigest_def)

lemma int_base16_hexdigest: "int_base16 (hexdigest w) = Some (uint w)"
proof -
  have ne: "hexdigest w \<noteq> []" by (simp add: hexdigest_def)
  have "uint w < 2 ^ 256" using uint_bounded[of w] by simp
  then have "uint w mod 16 ^ 64 = uint w" by simp
  then have "int_base16_from 0 (hexdigest w) = Some (uint w)"
    unfolding hexdigest_digits using int_base16_from_digits[of "uint w" 0 64] by simp
  then show ?thesis using ne by (simp add: int_base16_def)
qed

lemma int_base16_SHA256: "int_base16 (SHA256 env text) = Some (uint (sha256 env text))"
  by (simp add: SHA256_def int_base16_hexdigest)

lemma dict_rebuild:
  "distinct (map fst xs) \<Longrightarrow> xs = map (\<lambda>k. (k, the (map_of xs k))) (map fst xs)"
proof (induction xs)
  case Nil
  then show ?case by simp
next
  case (Cons p ps)
  then have "map (\<lambda>k. (k, the (map_of (p # ps) k))) (map fst ps)
      = map (\<lambda>k. (k, the (map_of ps k))) (map fst ps)"
    by (intro map_cong) (auto simp: image_iff)
  with Cons show ?case by (cases p) simp
qed

lemma sort_key_dict_unique:
  fixes d1 d2 :: "('k::linorder \<times> 'v) list"
  assumes "distinct (map fst d1)" "distinct (map fst d2)" "set d1 = set d2"
  shows "sort_key fst d1 = sort_key fst d2"
proof -
  let ?s1 = "sort_key fst d1" and ?s2 = "sort_key fst d2"
  have d: "distinct (map fst ?s1)" "distinct (map fst ?s2)"
    using assms by (simp_all add: distinct_map inj_on_def)
  have k: "map fst ?s1 = map fst ?s2"
  proof (rule sorted_distinct_set_unique)
    show "sorted (map fst ?s1)" "sorted (map fst ?s2)" by simp_all
    show "distinct (map fst ?s1)" "distinct (map fst ?s2)" by (rule d)+
    show "set (map fst ?s1) = set (map fst ?s2)" using assms(3) by simp
  qed
  have "set ?s1 = set ?s2" using assms(3) by simp
  then have m: "map_of ?s1 = map_of ?s2" using d by (simp add: map_of_inject_set)
  show ?thesis
    using dict_rebuild[OF d(1)] dict_rebuild[OF d(2)] k m by metis
qed

lemma to_string_order:
  assumes "is_dict d1" "is_dict d2" "set d1 = set d2"
  shows "to_string env d1 = to_string env d2"
  using sort_key_dict_unique[of d1 d2] assms by (simp add: to_string_def is_dict_def)

lemma is_dict_update: "is_dict d \<Longrightarrow> is_dict (AList.update k v d)"
  by (simp add: is_dict_def distinct_update)

lemma set_update_cong:
  assumes "is_dict d1" "is_dict d2" "set d1 = set d2"
  shows "set (AList.update k v d1) = set (AList.update k v d2)"
proof -
  have "map_of d1 = map_of d2" using assms by (simp add: is_dict_def map_of_inject_set)
  then have "map_of (AList.update k v d1) = map_of (AList.update k v d2)"
    by (simp add: update_conv')
  then show ?thesis
    using assms map_of_inject_set[of "AList.update k v d1" "AList.update k v d2"]
    by (simp add: is_dict_def distinct_update)
qed

text \<open>
  C8.  The serialisation and the digest are functions of the template's items and the
  nonce alone.  Two templates with the same items in different insertion orders have the
  same serialisation, and with the same trial nonce written to them the same
  serialisation, the same digest and the same verdict of every target.
\<close>

theorem to_string_insertion_order:
  assumes "is_dict t1" and "is_dict t2" and "set t1 = set t2"
  shows "to_string env t1 = to_string env t2 \<and>
         to_string env (with_nonce t1 n) = to_string env (with_nonce t2 n) \<and>
         SHA256 env (to_string env (with_nonce t1 n)) = SHA256 env (to_string env (with_nonce t2 n)) \<and>
         accepted env t1 target n = accepted env t2 target n"
proof -
  have a: "to_string env t1 = to_string env t2"
    using assms by (rule to_string_order)
  have "set (with_nonce t1 n) = set (with_nonce t2 n)"
    unfolding with_nonce_def using assms by (rule set_update_cong)
  then have b: "to_string env (with_nonce t1 n) = to_string env (with_nonce t2 n)"
    using assms by (intro to_string_order) (simp_all add: with_nonce_def is_dict_update)
  show ?thesis using a b by (simp add: accepted_def digest_int_def)
qed

theorem to_string_insertion_order_witness:
  "is_dict example_template \<and> is_dict example_reordered \<and>
   set example_template = set example_reordered \<and> example_template \<noteq> example_reordered \<and>
   to_string example_env example_template = to_string example_env example_reordered \<and>
   to_string example_env (with_nonce example_template 7)
     = to_string example_env (with_nonce example_reordered 7) \<and>
   SHA256 example_env (to_string example_env (with_nonce example_template 7))
     = SHA256 example_env (to_string example_env (with_nonce example_reordered 7)) \<and>
   accepted example_env example_template (PyInt (2 ^ 254)) 7
     = accepted example_env example_reordered (PyInt (2 ^ 254)) 7"
proof -
  have d: "is_dict example_template" "is_dict example_reordered"
    by (simp_all add: is_dict_def example_template_def example_reordered_def)
  have s: "set example_template = set example_reordered"
    by (auto simp: example_template_def example_reordered_def)
  have n: "example_template \<noteq> example_reordered"
    by (simp add: example_template_def example_reordered_def)
  show ?thesis
    using d s n to_string_insertion_order [OF d s, of example_env 7 "PyInt (2 ^ 254)"]
    by simp
qed

section \<open>Properties of the search\<close>

lemma with_nonce_again: "with_nonce (with_nonce block_data m) n = with_nonce block_data n"
  by (simp add: with_nonce_def)

lemma accepted_with_nonce:
  "accepted env (with_nonce block_data m) target n = accepted env block_data target n"
  by (simp add: accepted_def digest_int_def with_nonce_again)

lemma mined_with_nonce: "mined env (with_nonce block_data m) n = mined env block_data n"
  by (simp add: mined_def with_nonce_again)

text \<open>One iteration of the loop of \<^verbatim>\<open>mine_nonce\<close>.\<close>

lemma mine_nonce_loop_step:
  "mine_nonce_loop env block_data n e target =
     (if n < e then
        (if accepted env block_data target n then Inr (Some (mined env block_data n))
         else mine_nonce_loop env (with_nonce block_data n) (n + 1) e target)
      else Inr None)"
  by (subst mine_nonce_loop.simps)
    (simp add: Let_def int_base16_SHA256 accepted_def digest_int_def mined_def with_nonce_def)

lemma first_accepted_with_nonce:
  "first_accepted env (with_nonce block_data m) target s e n
     = first_accepted env block_data target s e n"
  by (simp add: first_accepted_def accepted_with_nonce)

lemma first_accepted_here:
  assumes "s < e" "accepted env block_data target s"
  shows "first_accepted env block_data target s e n \<longleftrightarrow> n = s"
  using assms unfolding first_accepted_def
  by (metis order.order_iff_strict order_refl linorder_not_less)

lemma first_accepted_later:
  assumes "\<not> accepted env block_data target s"
  shows "first_accepted env block_data target s e n
     \<longleftrightarrow> first_accepted env block_data target (s + 1) e n"
proof -
  have "s \<le> m \<longleftrightarrow> m = s \<or> s + 1 \<le> m" for m by auto
  then show ?thesis using assms unfolding first_accepted_def by metis
qed

lemma mine_nonce_loop_Some:
  "mine_nonce_loop env block_data s e target = Inr (Some b) \<longleftrightarrow>
     (\<exists>n. first_accepted env block_data target s e n \<and> b = mined env block_data n)"
proof (induction "nat (e - s)" arbitrary: s block_data)
  case 0
  then have "\<not> s < e" by simp
  then show ?case
    by (subst mine_nonce_loop_step) (auto simp: first_accepted_def)
next
  case (Suc k)
  then have lt: "s < e" and k: "k = nat (e - (s + 1))" by auto
  show ?case
  proof (cases "accepted env block_data target s")
    case True
    then show ?thesis using lt
      by (subst mine_nonce_loop_step) (auto simp: first_accepted_here)
  next
    case False
    then show ?thesis using lt Suc.hyps(1)[OF k, of "with_nonce block_data s"]
      by (subst mine_nonce_loop_step)
        (simp add: first_accepted_with_nonce mined_with_nonce first_accepted_later[OF False])
  qed
qed

lemma mine_nonce_loop_None:
  "mine_nonce_loop env block_data s e target = Inr None \<longleftrightarrow>
     (\<forall>n. s \<le> n \<and> n < e \<longrightarrow> \<not> accepted env block_data target n)"
proof (induction "nat (e - s)" arbitrary: s block_data)
  case 0
  then have "\<not> s < e" by simp
  then show ?case
    by (subst mine_nonce_loop_step) auto
next
  case (Suc k)
  then have lt: "s < e" and k: "k = nat (e - (s + 1))" by auto
  have split: "s \<le> m \<longleftrightarrow> m = s \<or> s + 1 \<le> m" for m by auto
  show ?case
  proof (cases "accepted env block_data target s")
    case True
    then show ?thesis using lt
      by (subst mine_nonce_loop_step) auto
  next
    case False
    then show ?thesis using lt Suc.hyps(1)[OF k, of "with_nonce block_data s"]
      by (subst mine_nonce_loop_step) (auto simp: accepted_with_nonce split)
  qed
qed

lemma mine_nonce_loop_no_error: "mine_nonce_loop env block_data s e target \<noteq> Inl err"
proof (induction "nat (e - s)" arbitrary: s block_data)
  case 0
  then have "\<not> s < e" by simp
  then show ?case
    by (subst mine_nonce_loop_step) auto
next
  case (Suc k)
  then have lt: "s < e" and k: "k = nat (e - (s + 1))" by auto
  show ?case using lt Suc.hyps(1)[OF k, of "with_nonce block_data s"]
    by (subst mine_nonce_loop_step) auto
qed

lemma mine_nonce_result: "\<exists>r. mine_nonce env a = Inr r"
  by (cases a; cases "mine_nonce env a") (auto simp: mine_nonce_def mine_nonce_loop_no_error)

lemma pool_map_mine_nonce:
  "pool_map (mine_nonce env) args = Inr (map (\<lambda>a. projr (mine_nonce env a)) args)"
proof (induction args)
  case Nil
  then show ?case by simp
next
  case (Cons a args)
  obtain r where "mine_nonce env a = Inr r" using mine_nonce_result by blast
  then show ?case using Cons by simp
qed

lemma mined_nonempty: "mined env block_data n \<noteq> []"
  by (simp add: mined_def)

lemma first_result_Some:
  assumes "\<forall>r\<in>set rs. r \<noteq> Some []"
  shows "first_result rs = Some b \<longleftrightarrow>
     (\<exists>i<length rs. rs ! i = Some b \<and> (\<forall>j<i. rs ! j = None))"
  using assms
proof (induction rs)
  case Nil
  then show ?case by simp
next
  case (Cons r rs)
  show ?case
  proof (cases r)
    case None
    have "(\<exists>i<length (r # rs). (r # rs) ! i = Some b \<and> (\<forall>j<i. (r # rs) ! j = None))
        \<longleftrightarrow> (\<exists>i<length rs. rs ! i = Some b \<and> (\<forall>j<i. rs ! j = None))" (is "?L \<longleftrightarrow> ?R")
    proof
      assume ?L
      then obtain i where i: "i < length (r # rs)" "(r # rs) ! i = Some b" "\<forall>j<i. (r # rs) ! j = None"
        by blast
      then obtain i' where i': "i = Suc i'" using None by (cases i) auto
      have "\<forall>j<i'. rs ! j = None" using i(3) i' by auto
      then show ?R using i i' by auto
    next
      assume ?R
      then obtain i where i: "i < length rs" "rs ! i = Some b" "\<forall>j<i. rs ! j = None" by blast
      have "\<forall>j<Suc i. (r # rs) ! j = None" using i(3) None by (auto simp: nth_Cons')
      then show ?L using i by (intro exI[of _ "Suc i"]) auto
    qed
    then show ?thesis using Cons None by (simp add: truthy_def)
  next
    case (Some d)
    then have t: "truthy r" using Cons.prems by (auto simp: truthy_def)
    have "(\<exists>i<length (r # rs). (r # rs) ! i = Some b \<and> (\<forall>j<i. (r # rs) ! j = None))
        \<longleftrightarrow> r = Some b" (is "?L \<longleftrightarrow> ?R")
    proof
      assume ?L
      then obtain i where i: "(r # rs) ! i = Some b" "\<forall>j<i. (r # rs) ! j = None"
        by blast
      have "i = 0" using i(2) Some by (cases i) auto
      then show ?R using i by simp
    next
      assume ?R
      then show ?L by (intro exI[of _ 0]) simp
    qed
    then show ?thesis using t by simp
  qed
qed

lemma first_result_None:
  assumes "\<forall>r\<in>set rs. r \<noteq> Some []"
  shows "first_result rs = None \<longleftrightarrow> (\<forall>r\<in>set rs. r = None)"
  using assms
  by (induction rs) (auto simp: truthy_def split: option.splits)

lemma worker_result_cases:
  "worker_result env bd target n i = Inr (projr (worker_result env bd target n i))"
  using mine_nonce_result[of env] by (metis worker_result_def sum.sel(2))

lemma worker_result_Some:
  "worker_result env bd target n i = Inr (Some b) \<longleftrightarrow>
     (\<exists>m. first_accepted env bd target (i * nonce_step n) ((i + 1) * nonce_step n) m \<and>
          b = mined env bd m)"
  by (simp add: worker_result_def mine_nonce_def mine_nonce_loop_Some)

lemma worker_result_None:
  "worker_result env bd target n i = Inr None \<longleftrightarrow>
     (\<forall>m. i * nonce_step n \<le> m \<and> m < (i + 1) * nonce_step n \<longrightarrow> \<not> accepted env bd target m)"
  by (simp add: worker_result_def mine_nonce_def mine_nonce_loop_None)

lemma mine_eq:
  assumes "n = (case num_workers of None \<Rightarrow> cpu_count env | Some k \<Rightarrow> k)"
    and "1 \<le> n" and "elapsed_time \<noteq> 0" and "calculate_target d = Inr target"
  shows "mine env elapsed_time bd d num_workers = Inr (first_result (results_of env bd target n))"
proof -
  have "map (\<lambda>a. projr (mine_nonce env a)) (worker_args bd target n) = results_of env bd target n"
    by (simp add: worker_args_def results_of_def worker_result_def comp_def)
  then show ?thesis
    using assms by (simp add: mine_def pool_map_mine_nonce Let_def)
qed

lemma results_of_nth:
  assumes "i < nat n"
  shows "results_of env bd target n ! i = projr (worker_result env bd target n (int i))"
  using assms by (simp add: results_of_def)

lemma results_of_length: "length (results_of env bd target n) = nat n"
  by (simp add: results_of_def)

lemma results_of_truthy: "\<forall>r\<in>set (results_of env bd target n). r \<noteq> Some []"
proof
  fix r assume "r \<in> set (results_of env bd target n)"
  then obtain i where "r = projr (worker_result env bd target n i)"
    by (auto simp: results_of_def)
  then have "worker_result env bd target n i = Inr r"
    using worker_result_cases[of env bd target n i] by simp
  then show "r \<noteq> Some []"
    using mined_nonempty[of env bd] by (auto simp: worker_result_Some) metis
qed

lemma first_result_results_Some:
  "first_result (results_of env bd target n) = Some b \<longleftrightarrow>
    (\<exists>i. 0 \<le> i \<and> i < n \<and> worker_result env bd target n i = Inr (Some b) \<and>
       (\<forall>j. 0 \<le> j \<and> j < i \<longrightarrow> worker_result env bd target n j = Inr None))"
  (is "?L \<longleftrightarrow> ?R")
proof
  let ?rs = "results_of env bd target n"
  assume ?L
  then obtain i where i: "i < nat n" "?rs ! i = Some b" "\<forall>j<i. ?rs ! j = None"
    using first_result_Some[OF results_of_truthy, of env bd target n b] results_of_length by auto
  have a: "worker_result env bd target n (int i) = Inr (Some b)"
    using i(1,2) worker_result_cases[of env bd target n "int i"] by (simp add: results_of_nth)
  have b: "worker_result env bd target n j = Inr None" if "0 \<le> j" "j < int i" for j
  proof -
    have "nat j < i" "nat j < nat n" "int (nat j) = j" using that i(1) by auto
    then show ?thesis
      using i(3) worker_result_cases[of env bd target n j] results_of_nth[of "nat j" n env bd target]
      by (metis)
  qed
  show ?R using a b i(1) by (intro exI[of _ "int i"]) auto
next
  let ?rs = "results_of env bd target n"
  assume ?R
  then obtain i where i: "0 \<le> i" "i < n" "worker_result env bd target n i = Inr (Some b)"
    "\<forall>j. 0 \<le> j \<and> j < i \<longrightarrow> worker_result env bd target n j = Inr None" by blast
  have "nat i < length ?rs" using i by (simp add: results_of_length)
  moreover have "?rs ! nat i = Some b" using i by (simp add: results_of_nth)
  moreover have "\<forall>j<nat i. ?rs ! j = None"
  proof (intro allI impI)
    fix j assume "j < nat i"
    then have "j < nat n" "0 \<le> int j" "int j < i" using i by auto
    then show "?rs ! j = None" using i(4) by (simp add: results_of_nth)
  qed
  ultimately show ?L
    using first_result_Some[OF results_of_truthy, of env bd target n b] by blast
qed

lemma first_result_results_None:
  "first_result (results_of env bd target n) = None \<longleftrightarrow>
    (\<forall>i. 0 \<le> i \<and> i < n \<longrightarrow> worker_result env bd target n i = Inr None)"
proof -
  have "(\<forall>r\<in>set (results_of env bd target n). r = None) \<longleftrightarrow>
    (\<forall>i. 0 \<le> i \<and> i < n \<longrightarrow> projr (worker_result env bd target n i) = None)"
    by (auto simp: results_of_def)
  moreover have "projr (worker_result env bd target n i) = None \<longleftrightarrow> worker_result env bd target n i = Inr None" for i
    using worker_result_cases[of env bd target n i] by auto
  ultimately show ?thesis
    using first_result_None[OF results_of_truthy, of env bd target n] by simp
qed

lemma example_sorted:
  "sort_key fst (with_nonce example_template n) =
     [(''block_number'', Num (PyInt 1)), (''nonce'', Num (PyInt n)),
      (''previous_hash'', Str genesis_hash), (''transactions'', Str ''A->B:10'')]"
  by (simp add: with_nonce_def example_template_def)

lemma example_seven:
  "CHR ''7'' \<in> set (to_string example_env (with_nonce example_template n))
     \<longleftrightarrow> CHR ''7'' \<in> set (decimal n)"
  by (simp add: to_string_def example_sorted json_item_def json_string_def escape_char_def
      genesis_hash_def decimal_def[of 1] decimal_digits.simps[of 1] hex_digit_def)

lemma example_sha256:
  "sha256 example_env text = (if CHR ''7'' \<in> set text then 2 ^ 250 else - 1)"
  by (simp add: example_env_def)

lemma example_digest:
  "digest_int example_env example_template n =
     (if CHR ''7'' \<in> set (decimal n) then 2 ^ 250 else 2 ^ 256 - 1)"
proof -
  have "uint (- 1 :: 256 word) = 2 ^ 256 - 1"
    by (simp add: unsigned_minus_1_eq_mask mask_eq_exp_minus_1)
  moreover have "uint (2 ^ 250 :: 256 word) = 2 ^ 250"
    by (simp add: uint_2p)
  ultimately show ?thesis
    by (simp only: digest_int_def example_sha256 example_seven if_distrib[of uint] split: if_splits)
qed

lemmas decimal_digits_numeral = decimal_digits.simps[of "numeral k" for k] decimal_digits.simps[of 0] decimal_digits.simps[of 1]

lemma example_rejected: "0 \<le> m \<Longrightarrow> m < 7 \<Longrightarrow> \<not> accepted example_env example_template (PyInt (2 ^ 254)) m"
proof -
  assume "0 \<le> m" "m < 7"
  then have "m = 0 \<or> m = 1 \<or> m = 2 \<or> m = 3 \<or> m = 4 \<or> m = 5 \<or> m = 6" by arith
  then show ?thesis
    by (elim disjE) (simp_all add: accepted_def example_digest decimal_def decimal_digits_numeral hex_digit_def)
qed

lemma example_accepted: "accepted example_env example_template (PyInt (2 ^ 254)) 7"
  by (simp add: accepted_def example_digest decimal_def decimal_digits_numeral hex_digit_def)

lemma mined_fields:
  "map_of (mined env bd m) ''nonce'' = Some (Num (PyInt m))"
  "map_of (mined env bd m) ''hash'' = Some (Str (SHA256 env (to_string env (with_nonce bd m))))"
  by (simp_all add: mined_def with_nonce_def update_conv')

lemma mined_hash_value:
  "int_base16 (SHA256 env (to_string env (with_nonce bd m))) = Some (digest_int env bd m)"
  by (simp add: int_base16_SHA256 digest_int_def)

text \<open>
  C5.  With at least one worker, a target and a non-zero elapsed time: worker \<open>i\<close> returns
  a block exactly when its range holds an accepted nonce, and the block is the one of the
  first accepted nonce of the range, whose \<^verbatim>\<open>nonce\<close> field is that nonce; it returns
  \<^verbatim>\<open>None\<close> exactly when its range holds no accepted nonce.  \<^verbatim>\<open>mine\<close> returns the block
  of the lowest-indexed worker that returned one, and \<^verbatim>\<open>None\<close> exactly when every
  worker returned \<^verbatim>\<open>None\<close>.
\<close>

theorem mine_first_worker_first_nonce:
  assumes "n = (case num_workers of None \<Rightarrow> cpu_count env | Some k \<Rightarrow> k)"
    and "1 \<le> n" and "elapsed_time \<noteq> 0" and "calculate_target d = Inr target"
  shows
    "(worker_result env bd target n i = Inr (Some b) \<longleftrightarrow>
        (\<exists>m. first_accepted env bd target (i * nonce_step n) ((i + 1) * nonce_step n) m \<and>
             b = mined env bd m)) \<and>
     (worker_result env bd target n i = Inr None \<longleftrightarrow>
        (\<forall>m. i * nonce_step n \<le> m \<and> m < (i + 1) * nonce_step n \<longrightarrow>
             \<not> accepted env bd target m)) \<and>
     map_of (mined env bd m) ''nonce'' = Some (Num (PyInt m)) \<and>
     (mine env elapsed_time bd d num_workers = Inr (Some b) \<longleftrightarrow>
        (\<exists>i. 0 \<le> i \<and> i < n \<and> worker_result env bd target n i = Inr (Some b) \<and>
             (\<forall>j. 0 \<le> j \<and> j < i \<longrightarrow> worker_result env bd target n j = Inr None))) \<and>
     (mine env elapsed_time bd d num_workers = Inr None \<longleftrightarrow>
        (\<forall>i. 0 \<le> i \<and> i < n \<longrightarrow> worker_result env bd target n i = Inr None))"
proof -
  have m: "mine env elapsed_time bd d num_workers = Inr (first_result (results_of env bd target n))"
    using assms by (rule mine_eq)
  show ?thesis
    unfolding m sum.inject first_result_results_Some first_result_results_None
    using worker_result_Some[of env bd target n i b] worker_result_None[of env bd target n i]
      mined_fields(1)[of env bd m]
    by blast
qed

lemma example_first_accepted:
  "first_accepted example_env example_template (PyInt (2 ^ 254)) 0 (nonce_step 4) 7"
  unfolding first_accepted_def
  using example_rejected example_accepted by (simp add: nonce_step_def max_nonce_def)

theorem mine_first_worker_first_nonce_witness:
  "4 = (case Some 4 of None \<Rightarrow> cpu_count example_env | Some k \<Rightarrow> k) \<and> (1::int) \<le> 4 \<and> (1::rat) \<noteq> 0 \<and>
   calculate_target 2 = Inr (PyInt (2 ^ 254)) \<and>
   first_accepted example_env example_template (PyInt (2 ^ 254)) 0 (nonce_step 4) 7 \<and>
   worker_result example_env example_template (PyInt (2 ^ 254)) 4 0
     = Inr (Some (mined example_env example_template 7)) \<and>
   map_of (mined example_env example_template 7) ''nonce'' = Some (Num (PyInt 7)) \<and>
   mine example_env 1 example_template 2 (Some 4) = Inr (Some (mined example_env example_template 7))"
proof -
  have t: "calculate_target 2 = Inr (PyInt (2 ^ 254))"
    by (simp add: calculate_target_def)
  have n: "4 = (case Some 4 of None \<Rightarrow> cpu_count example_env | Some k \<Rightarrow> k)" "(1::int) \<le> 4"
    "(1::rat) \<noteq> 0" by simp_all
  note th = mine_first_worker_first_nonce [where env = example_env and bd = example_template
      and i = 0 and b = "mined example_env example_template 7" and m = 7, OF n t]
  have f: "first_accepted example_env example_template (PyInt (2 ^ 254)) (0 * nonce_step 4)
      ((0 + 1) * nonce_step 4) 7"
    using example_first_accepted by simp
  have w: "worker_result example_env example_template (PyInt (2 ^ 254)) 4 0
     = Inr (Some (mined example_env example_template 7))"
    using th f by blast
  have "mine example_env 1 example_template 2 (Some 4) = Inr (Some (mined example_env example_template 7))"
    using th w by fastforce
  then show ?thesis
    using t w example_first_accepted th by simp
qed

lemma mine_Some_cases:
  assumes "mine env elapsed_time bd d num_workers = Inr r"
  obtains target n where "calculate_target d = Inr target"
    and "n = (case num_workers of None \<Rightarrow> cpu_count env | Some k \<Rightarrow> k)"
    and "1 \<le> n" and "elapsed_time \<noteq> 0"
    and "r = first_result (results_of env bd target n)"
proof -
  let ?n = "case num_workers of None \<Rightarrow> cpu_count env | Some k \<Rightarrow> k"
  obtain target where t: "calculate_target d = Inr target"
    using assms by (cases "calculate_target d") (auto simp: mine_def Let_def)
  have n: "1 \<le> ?n" and e: "elapsed_time \<noteq> 0"
    using assms t by (auto simp: mine_def Let_def pool_map_mine_nonce split: if_splits)
  have "r = first_result (results_of env bd target ?n)"
    using assms mine_eq[OF refl n e t, of bd] by simp
  then show ?thesis using that t n e by blast
qed

lemma worker_nonce_in_space:
  assumes "1 \<le> n" "0 \<le> i" "i < n" "i * nonce_step n \<le> m" "m < (i + 1) * nonce_step n"
  shows "0 \<le> m \<and> m < 2 ^ 32"
proof -
  have s: "0 \<le> nonce_step n" using assms(1) by (rule nonce_step_nonneg)
  have "0 \<le> i * nonce_step n" using assms(2) s by simp
  moreover have "(i + 1) * nonce_step n \<le> n * nonce_step n"
    using assms(3) s by (intro mult_right_mono) auto
  moreover have "n * nonce_step n \<le> 2 ^ 32"
    using covered_le[OF assms(1)] by (simp add: max_nonce_def)
  ultimately show ?thesis using assms(4,5) by linarith
qed

text \<open>
  C6.  Every block that \<^verbatim>\<open>mine\<close> returns records a \<^verbatim>\<open>hash\<close> whose value as a base-16
  number is strictly below the target of the requested difficulty, and a \<^verbatim>\<open>nonce\<close>
  in \<open>[0, 2^32)\<close>.
\<close>

theorem mine_block_below_target:
  assumes "mine env elapsed_time bd d num_workers = Inr (Some b)"
  shows "\<exists>target h v n. calculate_target d = Inr target \<and>
           map_of b ''hash'' = Some (Str h) \<and> int_base16 h = Some v \<and> int_lt v target \<and>
           map_of b ''nonce'' = Some (Num (PyInt n)) \<and> 0 \<le> n \<and> n < 2 ^ 32"
proof -
  from assms obtain target n where t: "calculate_target d = Inr target"
    and n: "1 \<le> n" and r: "Some b = first_result (results_of env bd target n)"
    by (rule mine_Some_cases)
  from r obtain i where i: "0 \<le> i" "i < n" "worker_result env bd target n i = Inr (Some b)"
    using first_result_results_Some[of env bd target n b] by auto
  then obtain m where m: "first_accepted env bd target (i * nonce_step n) ((i + 1) * nonce_step n) m"
    and b: "b = mined env bd m"
    using worker_result_Some[of env bd target n i b] by auto
  have range: "0 \<le> m \<and> m < 2 ^ 32"
    using worker_nonce_in_space[OF n i(1,2)] m by (simp add: first_accepted_def)
  have "int_lt (digest_int env bd m) target"
    using m by (simp add: first_accepted_def accepted_def)
  then show ?thesis
    using t b range mined_fields[of env bd m] mined_hash_value[of env bd m] by blast
qed

lemma example_mine:
  "mine example_env 1 example_template 2 (Some 4)
     = Inr (Some (mined example_env example_template 7))"
proof -
  have "first_result (results_of example_env example_template (PyInt (2 ^ 254)) 4)
      = Some (mined example_env example_template 7)"
    unfolding first_result_results_Some worker_result_Some
    using example_first_accepted by (intro exI[of _ 0]) auto
  then show ?thesis
    using mine_eq[where n = 4 and num_workers = "Some 4" and env = example_env
        and elapsed_time = 1 and d = 2 and target = "PyInt (2 ^ 254)" and bd = example_template]
    by (simp add: calculate_target_def)
qed

lemma example_mined_hash:
  "map_of (mined example_env example_template 7) ''hash'' = Some (Str (hexdigest (2 ^ 250)))"
proof -
  have "CHR ''7'' \<in> set (decimal 7)"
    by (simp add: decimal_def decimal_digits_numeral hex_digit_def)
  then show ?thesis
    by (simp add: mined_fields SHA256_def example_sha256 example_seven)
qed

theorem mine_block_below_target_witness:
  "mine example_env 1 example_template 2 (Some 4)
     = Inr (Some (mined example_env example_template 7)) \<and>
   calculate_target 2 = Inr (PyInt (2 ^ 254)) \<and>
   map_of (mined example_env example_template 7) ''hash'' = Some (Str (hexdigest (2 ^ 250))) \<and>
   int_base16 (hexdigest (2 ^ 250)) = Some (2 ^ 250) \<and>
   map_of (mined example_env example_template 7) ''nonce'' = Some (Num (PyInt 7)) \<and>
   (\<exists>target h v n. calculate_target 2 = Inr target \<and>
      map_of (mined example_env example_template 7) ''hash'' = Some (Str h) \<and>
      int_base16 h = Some v \<and> int_lt v target \<and>
      map_of (mined example_env example_template 7) ''nonce'' = Some (Num (PyInt n)) \<and>
      0 \<le> n \<and> n < 2 ^ 32)"
proof -
  have "uint (2 ^ 250 :: 256 word) = 2 ^ 250"
    by (simp add: uint_2p)
  then have "int_base16 (hexdigest (2 ^ 250)) = Some (2 ^ 250)"
    by (simp add: int_base16_hexdigest)
  then show ?thesis
    using example_mine mine_block_below_target [OF example_mine] example_mined_hash
      mined_fields(1)[of example_env example_template 7]
    by (simp add: calculate_target_def)
qed

lemma int_lt_iff: "int_lt a t \<longleftrightarrow> of_int a < num_value t"
  by (cases t) simp_all

lemma calculate_target_high:
  assumes "256 \<le> d" and "d - 256 < 2 ^ 1024 - 2 ^ 970"
  shows "\<exists>target. calculate_target d = Inr target \<and> num_value target \<le> 1"
proof (cases "d = 256")
  case True
  then show ?thesis by (simp add: calculate_target_def)
next
  case False
  then have "\<not> 0 \<le> 256 - d" "\<not> 2 ^ 1024 - 2 ^ 970 \<le> - (256 - d)" using assms by auto
  moreover have "1 / 2 ^ nat (d - 256) \<le> (1::rat)" by (simp add: divide_le_eq_1)
  ultimately show ?thesis
    by (simp add: calculate_target_def Let_def)
qed

lemma calculate_target_overflow:
  "2 ^ 1024 - 2 ^ 970 \<le> d - 256 \<Longrightarrow> calculate_target d = Inl OverflowError"
  by (simp add: calculate_target_def Let_def)

lemma mine_overflow:
  "2 ^ 1024 - 2 ^ 970 \<le> d - 256 \<Longrightarrow> mine env elapsed_time bd d num_workers = Inl OverflowError"
  by (simp add: mine_def calculate_target_overflow)

lemma digest_int_nonneg: "0 \<le> digest_int env bd m"
  by (simp add: digest_int_def)

text \<open>
  C3, as the code has it.  \<^verbatim>\<open>mine\<close> validates no difficulty.  For a difficulty from 256 on
  (below \<open>256 + 2^1024 - 2^970\<close>, from where the conversion to a float raises
  OverflowError), at least one worker and a non-zero elapsed time, the target is computed
  and is at most 1, the workers are launched on their ranges, and \<^verbatim>\<open>mine\<close> returns the
  first of their results; a block is returned only from a nonce whose digest is 0.
\<close>

theorem mine_difficulty_not_validated:
  assumes "256 \<le> d" and "d - 256 < 2 ^ 1024 - 2 ^ 970"
    and "n = (case num_workers of None \<Rightarrow> cpu_count env | Some k \<Rightarrow> k)"
    and "1 \<le> n" and "elapsed_time \<noteq> 0"
  shows "\<exists>target. calculate_target d = Inr target \<and> num_value target \<le> 1 \<and>
           mine env elapsed_time bd d num_workers
             = Inr (first_result (results_of env bd target n)) \<and>
           length (results_of env bd target n) = nat n \<and>
           (\<forall>b. mine env elapsed_time bd d num_workers = Inr (Some b) \<longrightarrow>
              (\<exists>m. 0 \<le> m \<and> m < 2 ^ 32 \<and> digest_int env bd m = 0 \<and> b = mined env bd m))"
proof -
  obtain target where t: "calculate_target d = Inr target" and le: "num_value target \<le> 1"
    using calculate_target_high[OF assms(1,2)] by blast
  have m: "mine env elapsed_time bd d num_workers = Inr (first_result (results_of env bd target n))"
    using assms(3,4,5) t by (rule mine_eq)
  have "\<exists>m. 0 \<le> m \<and> m < 2 ^ 32 \<and> digest_int env bd m = 0 \<and> b = mined env bd m"
    if "mine env elapsed_time bd d num_workers = Inr (Some b)" for b
  proof -
    from that m obtain i where i: "0 \<le> i" "i < n" "worker_result env bd target n i = Inr (Some b)"
      using first_result_results_Some[of env bd target n b] by auto
    then obtain k where k: "first_accepted env bd target (i * nonce_step n) ((i + 1) * nonce_step n) k"
      and b: "b = mined env bd k"
      using worker_result_Some[of env bd target n i b] by auto
    have range: "0 \<le> k \<and> k < 2 ^ 32"
      using worker_nonce_in_space[OF assms(4) i(1,2)] k by (simp add: first_accepted_def)
    have "(of_int (digest_int env bd k) :: rat) < num_value target"
      using k by (simp add: first_accepted_def accepted_def int_lt_iff)
    then have "(of_int (digest_int env bd k) :: rat) < of_int 1" using le by simp
    then have "digest_int env bd k < 1" by (simp only: of_int_less_iff)
    then have "digest_int env bd k = 0" using digest_int_nonneg[of env bd k] by simp
    then show ?thesis using range b by blast
  qed
  then show ?thesis using t le m by (auto simp: results_of_length)
qed

lemma example_never_zero: "\<not> accepted example_env example_template (PyInt 1) m"
  by (simp add: accepted_def example_digest)

lemma example_mine_256: "mine example_env 1 example_template 256 (Some 4) = Inr None"
proof -
  have "first_result (results_of example_env example_template (PyInt 1) 4) = None"
    unfolding first_result_results_None worker_result_None
    using example_never_zero by simp
  then show ?thesis
    using mine_eq[where n = 4 and num_workers = "Some 4" and env = example_env
        and elapsed_time = 1 and d = 256 and target = "PyInt 1" and bd = example_template]
    by (simp add: calculate_target_def)
qed

text \<open>
  C3 as stated fails at difficulty 256: the target is 1, the four workers are given their
  ranges and run to the end, and \<^verbatim>\<open>mine\<close> returns \<^verbatim>\<open>None\<close>; nothing is rejected.
\<close>

theorem mine_difficulty_256_counterexample:
  "calculate_target 256 = Inr (PyInt 1) \<and>
   length (worker_args example_template (PyInt 1) 4) = 4 \<and>
   pool_map (mine_nonce example_env) (worker_args example_template (PyInt 1) 4)
     = Inr [None, None, None, None] \<and>
   mine example_env 1 example_template 256 (Some 4) = Inr None"
proof -
  have r: "results_of example_env example_template (PyInt 1) 4 = [None, None, None, None]"
  proof -
    have "worker_result example_env example_template (PyInt 1) 4 i = Inr None" for i
      unfolding worker_result_None using example_never_zero by simp
    then show ?thesis by (simp add: results_of_def upto.simps)
  qed
  have "pool_map (mine_nonce example_env) (worker_args example_template (PyInt 1) 4)
     = Inr (results_of example_env example_template (PyInt 1) 4)"
    unfolding pool_map_mine_nonce
    by (simp add: worker_args_def results_of_def worker_result_def comp_def)
  then show ?thesis
    using r example_mine_256 by (simp add: calculate_target_def worker_args_def)
qed

theorem mine_difficulty_not_validated_witness:
  "(256::int) \<le> 256 \<and> (256::int) - 256 < 2 ^ 1024 - 2 ^ 970 \<and>
   4 = (case Some 4 of None \<Rightarrow> cpu_count example_env | Some k \<Rightarrow> k) \<and> (1::int) \<le> 4 \<and>
   (1::rat) \<noteq> 0 \<and>
   (\<exists>target. calculate_target 256 = Inr target \<and> num_value target \<le> 1 \<and>
      mine example_env 1 example_template 256 (Some 4)
        = Inr (first_result (results_of example_env example_template target 4)) \<and>
      length (results_of example_env example_template target 4) = nat 4 \<and>
      (\<forall>b. mine example_env 1 example_template 256 (Some 4) = Inr (Some b) \<longrightarrow>
         (\<exists>m. 0 \<le> m \<and> m < 2 ^ 32 \<and> digest_int example_env example_template m = 0 \<and>
              b = mined example_env example_template m)))"
proof -
  have h: "(256::int) \<le> 256" "(256::int) - 256 < 2 ^ 1024 - 2 ^ 970"
    "4 = (case Some 4 of None \<Rightarrow> cpu_count example_env | Some k \<Rightarrow> k)" "(1::int) \<le> 4"
    "(1::rat) \<noteq> 0" by simp_all
  show ?thesis
    using h mine_difficulty_not_validated [OF h, of example_template] by simp
qed

section \<open>Properties of the chain\<close>

lemma default_previous_hash_not_genesis: "default_previous_hash \<noteq> genesis_hash"
proof
  assume "default_previous_hash = genesis_hash"
  then have "set default_previous_hash = set genesis_hash" by simp
  then show False by (simp add: default_previous_hash_def genesis_hash_def)
qed

text \<open>
  C2 as stated fails on the empty chain with the block of the script's defaults: its
  \<^verbatim>\<open>previous_hash\<close> is not the genesis sentinel, and the block is appended.
\<close>

theorem add_block_to_chain_unchecked_counterexample:
  "previous_hash_of (CHAIN initial_state) = Inr (Str genesis_hash) \<and>
   map_of default_block ''previous_hash'' = Some (Str default_previous_hash) \<and>
   default_previous_hash \<noteq> genesis_hash \<and>
   add_block_to_chain default_block initial_state
     = (Inr (), \<lparr>CHAIN = [default_block], REWARD = PyInt 50\<rparr>)"
  using default_previous_hash_not_genesis
  by (simp add: previous_hash_of_def initial_state_def default_block_def add_block_to_chain_def)

text \<open>
  C2, as the code has it.  \<^verbatim>\<open>add_block_to_chain\<close> checks no linkage: whatever the
  block's \<^verbatim>\<open>previous_hash\<close>, the block is appended, the chain is longer by exactly one
  and the reward is unchanged; the call returns normally exactly when the block has a
  \<^verbatim>\<open>block_number\<close>.
\<close>

theorem add_block_to_chain_appends:
  "CHAIN (snd (add_block_to_chain block s)) = CHAIN s @ [block] \<and>
   length (CHAIN (snd (add_block_to_chain block s))) = length (CHAIN s) + 1 \<and>
   REWARD (snd (add_block_to_chain block s)) = REWARD s \<and>
   (fst (add_block_to_chain block s) = Inr () \<longleftrightarrow> map_of block ''block_number'' \<noteq> None)"
  by (simp add: add_block_to_chain_def Let_def split: option.splits)

theorem add_block_to_chain_appends_witness:
  "CHAIN (snd (add_block_to_chain default_block initial_state)) = [default_block] \<and>
   length (CHAIN (snd (add_block_to_chain default_block initial_state))) = 1 \<and>
   fst (add_block_to_chain default_block initial_state) = Inr ()"
  using add_block_to_chain_appends [of default_block initial_state]
  by (simp add: initial_state_def default_block_def)

subsection \<open>Rounding to a double\<close>












subsection \<open>The recommendation\<close>




















section \<open>Properties of the reward\<close>

lemma reward_at_Suc:
  "reward_at (Suc i) = (if Suc i mod HALVING_INTERVAL = 0 then halve (reward_at i) else reward_at i)"
  by (simp add: reward_at_def div_Suc)

lemma reward_at_first_interval: "i < 210000 \<Longrightarrow> reward_at i = PyInt 50"
  by (simp add: reward_at_def HALVING_INTERVAL_def)

lemma reward_at_second_interval: "reward_at 210000 = PyFloat 25"
  by (simp add: reward_at_def HALVING_INTERVAL_def halve_def)

lemma num_value_halve_pow: "num_value ((halve ^^ k) r) = num_value r / 2 ^ k"
  by (induction k) (simp_all add: halve_def)

lemma num_value_reward_at: "num_value (reward_at i) = 50 / 2 ^ (i div 210000)"
  by (simp add: reward_at_def num_value_halve_pow HALVING_INTERVAL_def)

lemma retarget_difficulty_state: "snd (retarget_difficulty s) = s"
  by (simp add: retarget_difficulty_def split: sum.splits)

lemma record_block_state:
  assumes "map_of found ''block_number'' \<noteq> None"
  shows "snd (record_block total_time found s) =
     \<lparr>CHAIN = CHAIN s @ [credit total_time (REWARD s) found],
      REWARD = (if Suc (length (CHAIN s)) mod HALVING_INTERVAL = 0 then halve (REWARD s)
                else REWARD s)\<rparr>"
proof -
  have b: "map_of (credit total_time (REWARD s) found) ''block_number'' \<noteq> None"
    using assms by (simp add: credit_def update_conv')
  then obtain v where v: "map_of (credit total_time (REWARD s) found) ''block_number'' = Some v"
    by blast
  have a: "add_block_to_chain (credit total_time (REWARD s) found) s
      = (Inr (), s\<lparr>CHAIN := CHAIN s @ [credit total_time (REWARD s) found]\<rparr>)"
    by (simp add: add_block_to_chain_def Let_def v)
  show ?thesis
    unfolding record_block_def Let_def a
    using retarget_difficulty_state
    by (auto simp: split_beta split: sum.splits)
qed

lemma mined_keeps: "k \<noteq> ''nonce'' \<Longrightarrow> k \<noteq> ''hash'' \<Longrightarrow> map_of (mined env bd m) k = map_of bd k"
  by (simp add: mined_def with_nonce_def update_conv')

lemma mine_Some_mined:
  assumes "mine env elapsed_time bd d num_workers = Inr (Some b)"
  shows "\<exists>m. b = mined env bd m"
proof -
  from assms obtain target n where "Some b = first_result (results_of env bd target n)"
    by (rule mine_Some_cases)
  then obtain i where "worker_result env bd target n i = Inr (Some b)"
    using first_result_results_Some[of env bd target n b] by auto
  then show ?thesis
    using worker_result_Some[of env bd target n i b] by auto
qed

lemma mine_truthy:
  assumes "mine env elapsed_time bd d num_workers = Inr r" and "truthy r"
  obtains m where "r = Some (mined env bd m)"
proof -
  from assms(2) obtain b where "r = Some b" by (cases r) (auto simp: truthy_def)
  then show ?thesis using mine_Some_mined assms(1) that by blast
qed

lemma appended_reward_schedule:
  assumes "reward_schedule s"
  shows "reward_schedule
     \<lparr>CHAIN = CHAIN s @ [credit total_time (REWARD s) found],
      REWARD = (if Suc (length (CHAIN s)) mod HALVING_INTERVAL = 0 then halve (REWARD s)
                else REWARD s)\<rparr>"
proof -
  have r: "REWARD s = reward_at (length (CHAIN s))"
    and old: "\<forall>i<length (CHAIN s). reward_of (CHAIN s ! i) = Some (Num (reward_at i))"
    using assms by (simp_all add: reward_schedule_def)
  have new: "reward_of (credit total_time (REWARD s) found) = Some (Num (reward_at (length (CHAIN s))))"
    by (simp add: reward_of_def credit_def update_conv' r)
  show ?thesis
    unfolding reward_schedule_def
    using old new r by (auto simp: nth_append reward_at_Suc less_Suc_eq)
qed

lemma start_mining_state:
  "snd (start_mining env elapsed_time total_time data s) = s \<or>
   (\<exists>found. snd (start_mining env elapsed_time total_time data s) =
     \<lparr>CHAIN = CHAIN s @ [credit total_time (REWARD s) found],
      REWARD = (if Suc (length (CHAIN s)) mod HALVING_INTERVAL = 0 then halve (REWARD s)
                else REWARD s)\<rparr>)"
proof (cases "previous_hash_of (CHAIN s)")
  case (Inl e)
  then show ?thesis by (simp add: start_mining_def Let_def)
next
  case (Inr previous_hash)
  let ?difficulty = "case req_difficulty data of None \<Rightarrow> ''Medium'' | Some d \<Rightarrow> d"
  let ?bd = "[(''block_number'', Num (PyInt (int (length (CHAIN s)) + 1))),
              (''transactions'', Str (case req_transactions data of
                       None \<Rightarrow> ''Example transaction'' | Some t \<Rightarrow> t)),
              (''previous_hash'', previous_hash)]"
  show ?thesis
  proof (cases "map_of DIFFICULTIES ?difficulty")
    case None
    then show ?thesis using Inr by (simp add: start_mining_def Let_def)
  next
    case (Some target_difficulty)
    show ?thesis
    proof (cases "mine env elapsed_time ?bd target_difficulty (req_num_workers data)")
      case (Inl e)
      then show ?thesis using Inr Some by (simp add: start_mining_def Let_def)
    next
      case r: (Inr r)
      show ?thesis
      proof (cases "truthy r")
        case False
        then show ?thesis using Inr Some r by (simp add: start_mining_def Let_def)
      next
        case True
        with r obtain m where m: "r = Some (mined env ?bd m)" by (rule mine_truthy)
        have "map_of (mined env ?bd m) ''block_number'' \<noteq> None"
          by (simp add: mined_keeps)
        then have "snd (record_block total_time (mined env ?bd m) s) =
           \<lparr>CHAIN = CHAIN s @ [credit total_time (REWARD s) (mined env ?bd m)],
            REWARD = (if Suc (length (CHAIN s)) mod HALVING_INTERVAL = 0 then halve (REWARD s)
                      else REWARD s)\<rparr>"
          by (rule record_block_state)
        moreover have "start_mining env elapsed_time total_time data s
            = record_block total_time (mined env ?bd m) s"
          using Inr Some r True m by (simp add: start_mining_def Let_def)
        ultimately show ?thesis by auto
      qed
    qed
  qed
qed

lemma start_mining_reward_schedule:
  assumes "reward_schedule s"
  shows "reward_schedule (snd (start_mining env elapsed_time total_time data s))"
  using start_mining_state[of env elapsed_time total_time data s]
    appended_reward_schedule[OF assms] assms by auto

lemma serve_reward_schedule:
  "reward_schedule s \<Longrightarrow> reward_schedule (serve env requests s)"
proof (induction requests arbitrary: s)
  case Nil
  then show ?case by simp
next
  case (Cons r requests)
  obtain elapsed_time total_time data where r: "r = (elapsed_time, total_time, data)"
    by (cases r) auto
  show ?case
    unfolding r serve.simps
    using Cons.prems by (intro Cons.IH start_mining_reward_schedule)
qed

lemma initial_reward_schedule: "reward_schedule initial_state"
  by (simp add: reward_schedule_def initial_state_def reward_at_def HALVING_INTERVAL_def)

lemma main_script_state:
  "snd (main_script env elapsed_time total_time bd difficulty workers s) = s \<or>
   (\<exists>found. snd (main_script env elapsed_time total_time bd difficulty workers s) =
      s\<lparr>CHAIN := CHAIN s @ [credit total_time (REWARD s) found]\<rparr>)"
  by (auto simp: main_script_def add_block_to_chain_def Let_def
      split: option.splits sum.splits)

lemma main_script_reward_schedule:
  "reward_schedule (snd (main_script env elapsed_time total_time bd difficulty workers initial_state))"
proof -
  have "reward_schedule (initial_state\<lparr>CHAIN := CHAIN initial_state @ [credit total_time (REWARD initial_state) found]\<rparr>)" for found
    using appended_reward_schedule[OF initial_reward_schedule, of total_time found]
    by (simp add: initial_state_def HALVING_INTERVAL_def)
  then show ?thesis
    using main_script_state[of env elapsed_time total_time bd difficulty workers initial_state]
      initial_reward_schedule by auto
qed

lemma run_reward_schedule: "reward_schedule (run env first requests)"
  by (cases first)
    (auto simp: run_def intro!: serve_reward_schedule main_script_reward_schedule)

text \<open>
  C4.  In every state the program reaches (the script's first block, then any requests),
  the block at position \<open>i\<close> of the chain, counted from 0, carries the reward of the
  schedule: 50 halved once for every multiple of 210000 among the chain lengths
  \<open>1, \<dots>, i\<close>.  So each of the first 210000 blocks carries 50 and the 210001st carries 25;
  from one block to the next the reward is halved once when the chain length has become
  a multiple of 210000 and is unchanged otherwise.  The reward of the next block is
  \<^verbatim>\<open>REWARD\<close>.
\<close>

theorem reward_halving_schedule:
  assumes "s = run env first requests" and "i < length (CHAIN s)"
  shows "reward_of (CHAIN s ! i) = Some (Num (reward_at i)) \<and>
         REWARD s = reward_at (length (CHAIN s)) \<and>
         (i < 210000 \<longrightarrow> reward_at i = PyInt 50) \<and>
         (i = 210000 \<longrightarrow> reward_at i = PyFloat 25) \<and>
         reward_at (Suc i) = (if Suc i mod 210000 = 0 then halve (reward_at i) else reward_at i) \<and>
         num_value (reward_at i) = 50 / 2 ^ (i div 210000)"
proof -
  have "reward_schedule s"
    unfolding assms(1) by (rule run_reward_schedule)
  then have "reward_of (CHAIN s ! i) = Some (Num (reward_at i))"
    and "REWARD s = reward_at (length (CHAIN s))"
    using assms(2) by (simp_all add: reward_schedule_def)
  then show ?thesis
    using reward_at_first_interval[of i] reward_at_second_interval reward_at_Suc[of i]
      num_value_reward_at[of i]
    by (simp add: HALVING_INTERVAL_def)
qed

lemma zero_mine:
  assumes "calculate_target d = Inr (PyInt t)" and "0 < t" and "1 \<le> k" and "k \<le> 2 ^ 32"
    and "elapsed_time \<noteq> 0"
  shows "mine zero_env elapsed_time bd d (Some k) = Inr (Some (mined zero_env bd 0))"
proof -
  have a: "accepted zero_env bd (PyInt t) 0"
    using assms(2) by (simp add: accepted_def digest_int_def zero_env_def)
  have "0 < nonce_step k"
    using assms(3,4) by (simp add: nonce_step_def max_nonce_def pos_imp_zdiv_pos_iff)
  then have "first_accepted zero_env bd (PyInt t) (0 * nonce_step k) ((0 + 1) * nonce_step k) 0"
    using a by (auto simp: first_accepted_def)
  then have "worker_result zero_env bd (PyInt t) k 0 = Inr (Some (mined zero_env bd 0))"
    unfolding worker_result_Some by blast
  then have "first_result (results_of zero_env bd (PyInt t) k) = Some (mined zero_env bd 0)"
    unfolding first_result_results_Some using assms(3) by (intro exI[of _ 0]) auto
  then show ?thesis
    using mine_eq[where n = k and num_workers = "Some k" and env = zero_env
        and elapsed_time = elapsed_time and d = d and target = "PyInt t" and bd = bd] assms
    by simp
qed

lemma zero_mine_easy: "mine zero_env 1 bd 2 (Some 4) = Inr (Some (mined zero_env bd 0))"
  by (rule zero_mine[where t = "2 ^ 254"]) (simp_all add: calculate_target_def)

lemma zero_mine_medium: "mine zero_env 1 bd 3 (Some 2) = Inr (Some (mined zero_env bd 0))"
  by (rule zero_mine[where t = "2 ^ 253"]) (simp_all add: calculate_target_def)

lemma mined_truthy: "truthy (Some (mined env bd m))"
  by (simp add: truthy_def mined_nonempty)

lemma credit_keeps:
  "k \<noteq> ''reward'' \<Longrightarrow> k \<noteq> ''mining_time'' \<Longrightarrow> map_of (credit t r b) k = map_of b k"
  by (simp add: credit_def update_conv')

lemma example_run:
  "run zero_env (1, 2, example_template, ''Easy'', Some 4) [(1, 3, example_request)] =
     \<lparr>CHAIN =
        [credit 2 (PyInt 50) (mined zero_env example_template 0),
         credit 3 (PyInt 50)
           (mined zero_env
              [(''block_number'', Num (PyInt 2)), (''transactions'', Str ''Example transaction''),
               (''previous_hash'', Str (SHA256 zero_env (to_string zero_env (with_nonce example_template 0))))]
              0)],
      REWARD = PyInt 50\<rparr>"
proof -
  let ?b1 = "credit 2 (PyInt 50) (mined zero_env example_template 0)"
  let ?s1 = "\<lparr>CHAIN = [?b1], REWARD = PyInt 50\<rparr>"
  let ?bd = "[(''block_number'', Num (PyInt 2)), (''transactions'', Str ''Example transaction''),
               (''previous_hash'', Str (SHA256 zero_env (to_string zero_env (with_nonce example_template 0))))]"
  have bn: "map_of (mined zero_env example_template 0) ''block_number'' = Some (Num (PyInt 1))"
    by (simp add: mined_keeps example_template_def)
  have bt: "map_of example_template ''block_number'' = Some (Num (PyInt 1))"
    by (simp add: example_template_def)
  have m1: "snd (main_script zero_env 1 2 example_template ''Easy'' (Some 4) initial_state) = ?s1"
    by (simp add: main_script_def DIFFICULTIES_def bt zero_mine_easy
        mined_truthy add_block_to_chain_def credit_keeps bn initial_state_def Let_def)
  have ph: "previous_hash_of (CHAIN ?s1)
      = Inr (Str (SHA256 zero_env (to_string zero_env (with_nonce example_template 0))))"
    by (simp add: previous_hash_of_def credit_keeps mined_fields)
  have bn2: "map_of (mined zero_env ?bd 0) ''block_number'' \<noteq> None"
    by (simp add: mined_keeps)
  have "start_mining zero_env 1 3 example_request ?s1 = record_block 3 (mined zero_env ?bd 0) ?s1"
    unfolding start_mining_def Let_def ph
    by (simp add: example_request_def DIFFICULTIES_def zero_mine_medium mined_truthy)
  then have "snd (start_mining zero_env 1 3 example_request ?s1)
      = \<lparr>CHAIN = [?b1, credit 3 (PyInt 50) (mined zero_env ?bd 0)], REWARD = PyInt 50\<rparr>"
    using record_block_state[OF bn2, of 3 ?s1] by (simp add: HALVING_INTERVAL_def)
  then show ?thesis
    by (simp add: run_def m1)
qed

theorem reward_halving_schedule_witness:
  "(1::nat) < length (CHAIN (run zero_env (1, 2, example_template, ''Easy'', Some 4)
                         [(1, 3, example_request)])) \<and>
   reward_of (CHAIN (run zero_env (1, 2, example_template, ''Easy'', Some 4)
                       [(1, 3, example_request)]) ! 1) = Some (Num (PyInt 50)) \<and>
   REWARD (run zero_env (1, 2, example_template, ''Easy'', Some 4) [(1, 3, example_request)])
     = PyInt 50 \<and>
   reward_at 1 = PyInt 50 \<and> reward_at 209999 = PyInt 50 \<and> reward_at 210000 = PyFloat 25"
proof -
  let ?s = "run zero_env (1, 2, example_template, ''Easy'', Some 4) [(1, 3, example_request)]"
  have len: "length (CHAIN ?s) = 2"
    by (simp add: example_run)
  have l: "1 < length (CHAIN ?s)"
    by (simp add: len)
  have r: "reward_at 1 = PyInt 50" "reward_at 2 = PyInt 50" "reward_at 209999 = PyInt 50"
    "reward_at 210000 = PyFloat 25"
    by (simp_all add: reward_at_def HALVING_INTERVAL_def halve_def)
  note th = reward_halving_schedule [OF refl l]
  have "reward_of (CHAIN ?s ! 1) = Some (Num (reward_at 1))"
    and "REWARD ?s = reward_at (length (CHAIN ?s))"
    using th by blast+
  then show ?thesis
    using l r by (simp add: len)
qed

subsection \<open>The chains the program builds\<close>

text \<open>Every block of a chain the program builds records a float mining time, so the
  recommendation above holds in every state the program reaches.\<close>

lemma credit_has_float_time: "has_float_time (credit total_time reward found)"
  by (simp add: has_float_time_def credit_def update_conv')

lemma start_mining_has_float_time:
  assumes "\<forall>b\<in>set (CHAIN s). has_float_time b"
  shows "\<forall>b\<in>set (CHAIN (snd (start_mining env elapsed_time total_time data s))). has_float_time b"
  using start_mining_state[of env elapsed_time total_time data s] assms
  by (auto simp: credit_has_float_time)

lemma serve_has_float_time:
  "\<forall>b\<in>set (CHAIN s). has_float_time b \<Longrightarrow>
   \<forall>b\<in>set (CHAIN (serve env requests s)). has_float_time b"
proof (induction requests arbitrary: s)
  case Nil
  then show ?case by simp
next
  case (Cons r requests)
  obtain elapsed_time total_time data where r: "r = (elapsed_time, total_time, data)"
    by (cases r) auto
  show ?case
    unfolding r serve.simps
    using Cons.prems by (intro Cons.IH start_mining_has_float_time)
qed

lemma run_has_float_time: "\<forall>b\<in>set (CHAIN (run env first requests)). has_float_time b"
proof -
  obtain elapsed_time total_time bd difficulty workers
    where f: "first = (elapsed_time, total_time, bd, difficulty, workers)"
    by (cases first) auto
  have "\<forall>b\<in>set (CHAIN (snd (main_script env elapsed_time total_time bd difficulty workers
      initial_state))). has_float_time b"
    using main_script_state[of env elapsed_time total_time bd difficulty workers initial_state]
    by (auto simp: initial_state_def credit_has_float_time)
  then show ?thesis
    unfolding f run_def prod.case by (rule serve_has_float_time)
qed

text \<open>The blocks that \<^verbatim>\<open>start_mining\<close> builds are linked by construction: the template
  it hands to the search carries the hash of the chain's last block, or the genesis
  sentinel on an empty chain.\<close>

lemma previous_hash_of_empty: "previous_hash_of [] = Inr (Str genesis_hash)"
  by (simp add: previous_hash_of_def)

lemma previous_hash_of_last:
  "chain \<noteq> [] \<Longrightarrow> map_of (last chain) ''hash'' = Some h \<Longrightarrow> previous_hash_of chain = Inr h"
  by (simp add: previous_hash_of_def)

section \<open>Properties of the search on the store\<close>

lemma dict_set_nth: "r < length st \<Longrightarrow> dict_set r k v st ! r = AList.update k v (st ! r)"
  by (simp add: dict_set_def)

lemma mine_nonce_loop_ref_step:
  assumes "a < length st"
  shows "mine_nonce_loop_ref env a n e target st =
     (if n < e then
        (if accepted env (st ! a) target n then (Inr (Some a), st[a := mined env (st ! a) n])
         else mine_nonce_loop_ref env a (n + 1) e target (st[a := with_nonce (st ! a) n]))
      else (Inr None, st))"
  using assms
  by (subst mine_nonce_loop_ref.simps)
    (simp add: Let_def dict_set_def int_base16_SHA256 accepted_def digest_int_def mined_def
      with_nonce_def)

lemma mine_nonce_loop_ref_refines:
  assumes "a < length st"
  shows "\<exists>d. mine_nonce_loop_ref env a n e target st
            = (ref_result a (mine_nonce_loop env (st ! a) n e target), st[a := d]) \<and>
           (\<forall>b. mine_nonce_loop env (st ! a) n e target = Inr (Some b) \<longrightarrow> d = b)"
  using assms
proof (induction "nat (e - n)" arbitrary: n st)
  case 0
  then have "\<not> n < e" by simp
  then show ?case using 0(2)
    by (subst mine_nonce_loop_ref_step, simp, subst (1 2) mine_nonce_loop_step)
      (auto simp: ref_result_def intro: exI[of _ "st ! a"])
next
  case (Suc k)
  then have lt: "n < e" and k: "k = nat (e - (n + 1))" by auto
  show ?case
  proof (cases "accepted env (st ! a) target n")
    case True
    then show ?thesis using lt Suc.prems
      by (subst mine_nonce_loop_ref_step, simp, subst (1 2) mine_nonce_loop_step)
        (auto simp: ref_result_def)
  next
    case False
    let ?st = "st[a := with_nonce (st ! a) n]"
    have a: "a < length ?st" and nth: "?st ! a = with_nonce (st ! a) n"
      using Suc.prems by simp_all
    obtain d where d: "mine_nonce_loop_ref env a (n + 1) e target ?st
            = (ref_result a (mine_nonce_loop env (?st ! a) (n + 1) e target), ?st[a := d])"
      and b: "\<forall>b. mine_nonce_loop env (?st ! a) (n + 1) e target = Inr (Some b) \<longrightarrow> d = b"
      using Suc.hyps(1)[OF k a] by blast
    have pure: "mine_nonce_loop env (st ! a) n e target
        = mine_nonce_loop env (with_nonce (st ! a) n) (n + 1) e target"
      using lt False by (subst mine_nonce_loop_step) simp
    have "mine_nonce_loop_ref env a n e target st
        = mine_nonce_loop_ref env a (n + 1) e target ?st"
      using lt False Suc.prems by (subst mine_nonce_loop_ref_step) simp_all
    then show ?thesis
      using d b by (intro exI[of _ d]) (simp add: pure nth)
  qed
qed

lemma mine_nonce_ref_refines:
  assumes "fst x < length st"
  shows "\<exists>d. mine_nonce_ref env x st
            = (ref_result (fst x) (mine_nonce env (st ! fst x, snd x)), st[fst x := d]) \<and>
           (\<forall>b. mine_nonce env (st ! fst x, snd x) = Inr (Some b) \<longrightarrow> d = b)"
proof -
  obtain a s e t q where x: "x = (a, s, e, t, q)" by (cases x) auto
  show ?thesis
    using mine_nonce_loop_ref_refines[of a st env s e t] assms
    by (simp add: x mine_nonce_ref_def mine_nonce_def)
qed

lemma worker_args_ref_spec:
  assumes "a < length st"
  shows "\<exists>args. worker_args_ref a target step js st = (args, st @ replicate (length js) (st ! a)) \<and>
           map fst args = [length st..<length st + length js] \<and>
           map snd args = map (\<lambda>i. (i * step, (i + 1) * step, target, i)) js"
  using assms
proof (induction js arbitrary: st)
  case Nil
  then show ?case by simp
next
  case (Cons j js)
  let ?st = "st @ [st ! a]"
  have a: "a < length ?st" and nth: "?st ! a = st ! a"
    using Cons.prems by (simp_all add: nth_append)
  obtain args where args: "worker_args_ref a target step js ?st
        = (args, ?st @ replicate (length js) (?st ! a))"
    and refs: "map fst args = [length ?st..<length ?st + length js]"
    and rest: "map snd args = map (\<lambda>i. (i * step, (i + 1) * step, target, i)) js"
    using Cons.IH[OF a] by blast
  have "[length st..<length st + length (j # js)]
      = length st # [length ?st..<length ?st + length js]"
    by (simp add: upt_rec)
  then show ?case
    using args refs rest
    by (intro exI[of _ "(length st, j * step, (j + 1) * step, target, j) # args"])
      (simp add: dict_copy_def nth replicate_app_Cons_same)
qed

lemma pool_map_ref_refines:
  assumes "\<forall>x\<in>set args. fst x < length st \<and> st ! fst x = bd" and "distinct (map fst args)"
  shows "\<exists>st'. pool_map_ref env args st
            = (Inr (map (\<lambda>x. map_option (\<lambda>_. fst x) (projr (mine_nonce env (bd, snd x)))) args),
               st') \<and>
           length st' = length st \<and>
           (\<forall>y. y \<notin> fst ` set args \<longrightarrow> st' ! y = st ! y) \<and>
           (\<forall>x\<in>set args. \<forall>b. mine_nonce env (bd, snd x) = Inr (Some b) \<longrightarrow> st' ! fst x = b)"
  using assms
proof (induction args arbitrary: st)
  case Nil
  then show ?case by simp
next
  case (Cons x args)
  have x: "fst x < length st" "st ! fst x = bd" using Cons.prems(1) by simp_all
  obtain r where r: "mine_nonce env (bd, snd x) = Inr r"
    using mine_nonce_result by blast
  obtain d where d: "mine_nonce_ref env x st = (ref_result (fst x) (Inr r), st[fst x := d])"
    and db: "\<forall>b. r = Some b \<longrightarrow> d = b"
    using mine_nonce_ref_refines[OF x(1), of env] x(2) r by auto
  let ?st = "st[fst x := d]"
  have notin: "fst x \<notin> fst ` set args" using Cons.prems(2) by auto
  have pre: "\<forall>y\<in>set args. fst y < length ?st \<and> ?st ! fst y = bd"
    using Cons.prems(1) notin by (auto simp: nth_list_update)
  have dist: "distinct (map fst args)" using Cons.prems(2) by simp
  obtain st' where st': "pool_map_ref env args ?st
            = (Inr (map (\<lambda>x. map_option (\<lambda>_. fst x) (projr (mine_nonce env (bd, snd x)))) args),
               st')"
    and len: "length st' = length ?st"
    and frame: "\<forall>y. y \<notin> fst ` set args \<longrightarrow> st' ! y = ?st ! y"
    and found: "\<forall>x\<in>set args. \<forall>b. mine_nonce env (bd, snd x) = Inr (Some b) \<longrightarrow> st' ! fst x = b"
    using Cons.IH[OF pre dist] by blast
  have here: "st' ! fst x = d" using frame notin x(1) by simp
  have "pool_map_ref env (x # args) st
      = (Inr (map (\<lambda>x. map_option (\<lambda>_. fst x) (projr (mine_nonce env (bd, snd x)))) (x # args)),
         st')"
    by (simp add: d st' r ref_result_def)
  moreover have "\<forall>y. y \<notin> fst ` set (x # args) \<longrightarrow> st' ! y = st ! y"
    using frame by auto
  moreover have "\<forall>y\<in>set (x # args). \<forall>b. mine_nonce env (bd, snd y) = Inr (Some b)
      \<longrightarrow> st' ! fst y = b"
    using found here db r by auto
  ultimately show ?case using len by (intro exI[of _ st']) simp
qed

lemma first_result_ref_refines:
  assumes "\<forall>x\<in>set args. \<forall>b. R x = Some b \<longrightarrow> st ! fst x = b \<and> b \<noteq> []"
  shows "(first_result_ref st (map (\<lambda>x. map_option (\<lambda>_. fst x) (R x)) args) = None \<and>
          first_result (map R args) = None) \<or>
         (\<exists>x\<in>set args. first_result_ref st (map (\<lambda>x. map_option (\<lambda>_. fst x) (R x)) args)
              = Some (fst x) \<and>
            first_result (map R args) = Some (st ! fst x))"
  using assms
proof (induction args)
  case Nil
  then show ?case by simp
next
  case (Cons x args)
  show ?case
  proof (cases "R x")
    case None
    then show ?thesis using Cons by (auto simp: truthy_def)
  next
    case (Some b)
    then have "st ! fst x = b" "b \<noteq> []" using Cons.prems by auto
    then show ?thesis using Some by (auto simp: truthy_def)
  qed
qed

lemma mine_nonce_Some_nonempty: "mine_nonce env x = Inr (Some b) \<Longrightarrow> b \<noteq> []"
  by (cases x) (auto simp: mine_nonce_def mine_nonce_loop_Some mined_nonempty)

lemma mine_ref_workers:
  assumes a: "a < length st" and n: "1 \<le> n"
    and w: "worker_args_ref a target (nonce_step n) [0..n - 1] st = (args, st1)"
    and p: "pool_map_ref env args st1 = (res, st2)"
  shows "\<exists>rs. res = Inr rs \<and>
           pool_map (mine_nonce env) (worker_args (st ! a) target n) = Inr (map (\<lambda>x. projr (mine_nonce env (st ! a, snd x))) args) \<and>
           length st \<le> length st2 \<and> (\<forall>y<length st. st2 ! y = st ! y) \<and>
           ((first_result_ref st2 rs = None \<and>
             first_result (map (\<lambda>x. projr (mine_nonce env (st ! a, snd x))) args) = None) \<or>
            (\<exists>r. first_result_ref st2 rs = Some r \<and> length st \<le> r \<and> r < length st2 \<and>
               first_result (map (\<lambda>x. projr (mine_nonce env (st ! a, snd x))) args)
                 = Some (st2 ! r)))"
proof -
  let ?bd = "st ! a"
  let ?k = "length [0..n - 1]"
  let ?R = "\<lambda>x. projr (mine_nonce env (?bd, snd x))"
  have st1: "st1 = st @ replicate ?k ?bd"
    and refs: "map fst args = [length st..<length st + ?k]"
    and rest: "map snd args = map (\<lambda>i. (i * nonce_step n, (i + 1) * nonce_step n, target, i)) [0..n - 1]"
    using worker_args_ref_spec[OF a, of target "nonce_step n" "[0..n - 1]"] w by auto
  have set_refs: "fst ` set args = {length st..<length st + ?k}"
    using refs by (metis set_map set_upt)
  have pre: "\<forall>x\<in>set args. fst x < length st1 \<and> st1 ! fst x = ?bd"
  proof
    fix x assume "x \<in> set args"
    then have "fst x \<in> {length st..<length st + ?k}" using set_refs by blast
    then show "fst x < length st1 \<and> st1 ! fst x = ?bd"
      by (auto simp: st1 nth_append)
  qed
  have dist: "distinct (map fst args)" using refs by simp
  obtain st' where res: "pool_map_ref env args st1
            = (Inr (map (\<lambda>x. map_option (\<lambda>_. fst x) (?R x)) args), st')"
    and len: "length st' = length st1"
    and frame: "\<forall>y. y \<notin> fst ` set args \<longrightarrow> st' ! y = st1 ! y"
    and found: "\<forall>x\<in>set args. \<forall>b. mine_nonce env (?bd, snd x) = Inr (Some b) \<longrightarrow> st' ! fst x = b"
    using pool_map_ref_refines[OF pre dist, of env] by blast
  have eq: "res = Inr (map (\<lambda>x. map_option (\<lambda>_. fst x) (?R x)) args)" "st2 = st'"
    using res p by simp_all
  have old: "\<forall>y<length st. st2 ! y = st ! y"
    using frame set_refs by (auto simp: eq st1 nth_append)
  have len2: "length st2 = length st + ?k" using len by (simp add: eq st1)
  have pure_args: "worker_args ?bd target n = map (\<lambda>x. (?bd, snd x)) args"
  proof -
    have "map (\<lambda>x. (?bd, snd x)) args = map (\<lambda>y. (?bd, y)) (map snd args)"
      by (simp add: comp_def)
    then show ?thesis unfolding rest by (simp add: worker_args_def comp_def)
  qed
  have pure: "pool_map (mine_nonce env) (worker_args ?bd target n) = Inr (map ?R args)"
    unfolding pool_map_mine_nonce pure_args by (simp add: comp_def)
  have R: "\<forall>x\<in>set args. \<forall>b. ?R x = Some b \<longrightarrow> st2 ! fst x = b \<and> b \<noteq> []"
  proof (intro ballI allI impI)
    fix x b assume x: "x \<in> set args" and b: "?R x = Some b"
    obtain r where r: "mine_nonce env (?bd, snd x) = Inr r" using mine_nonce_result by blast
    then have "mine_nonce env (?bd, snd x) = Inr (Some b)" using b by simp
    then show "st2 ! fst x = b \<and> b \<noteq> []"
      using found x mine_nonce_Some_nonempty by (auto simp: eq)
  qed
  have sel: "(first_result_ref st2 (map (\<lambda>x. map_option (\<lambda>_. fst x) (?R x)) args) = None \<and>
          first_result (map ?R args) = None) \<or>
         (\<exists>x\<in>set args. first_result_ref st2 (map (\<lambda>x. map_option (\<lambda>_. fst x) (?R x)) args)
              = Some (fst x) \<and>
            first_result (map ?R args) = Some (st2 ! fst x))"
    using R by (rule first_result_ref_refines)
  have "(first_result_ref st2 (map (\<lambda>x. map_option (\<lambda>_. fst x) (?R x)) args) = None \<and>
             first_result (map ?R args) = None) \<or>
            (\<exists>r. first_result_ref st2 (map (\<lambda>x. map_option (\<lambda>_. fst x) (?R x)) args) = Some r \<and>
               length st \<le> r \<and> r < length st2 \<and>
               first_result (map ?R args) = Some (st2 ! r))"
    using sel
  proof
    assume "first_result_ref st2 (map (\<lambda>x. map_option (\<lambda>_. fst x) (?R x)) args) = None \<and>
          first_result (map ?R args) = None"
    then show ?thesis by blast
  next
    assume "\<exists>x\<in>set args. first_result_ref st2 (map (\<lambda>x. map_option (\<lambda>_. fst x) (?R x)) args)
              = Some (fst x) \<and>
            first_result (map ?R args) = Some (st2 ! fst x)"
    then obtain x where x: "x \<in> set args"
      and f: "first_result_ref st2 (map (\<lambda>x. map_option (\<lambda>_. fst x) (?R x)) args) = Some (fst x)"
      and g: "first_result (map ?R args) = Some (st2 ! fst x)" by blast
    have "fst x \<in> {length st..<length st + ?k}" using x set_refs by blast
    then have "length st \<le> fst x \<and> fst x < length st2" using len2 by simp
    then show ?thesis using f g by blast
  qed
  then show ?thesis
    using eq(1) pure old len2 by (intro exI[of _ "map (\<lambda>x. map_option (\<lambda>_. fst x) (?R x)) args"]) simp
qed

text \<open>
  C10.  When \<^verbatim>\<open>mine\<close> returns, normally or with an exception, every dictionary that
  existed before the call, the caller's \<^verbatim>\<open>block_data\<close> among them, has the items it
  had: the workers are given fresh copies and write the nonce and the hash into those.
  A block that is returned is one of these copies, and it is the block of the search
  above on the caller's items.
\<close>

theorem mine_ref_leaves_caller_dictionary:
  assumes "block_data < length st"
    and "mine_ref env elapsed_time block_data d num_workers st = (res, st')"
  shows "length st \<le> length st' \<and> (\<forall>x<length st. st' ! x = st ! x) \<and>
         st' ! block_data = st ! block_data \<and>
         (\<forall>r. res = Inr (Some r) \<longrightarrow>
              length st \<le> r \<and> r < length st' \<and> r \<noteq> block_data \<and>
              mine env elapsed_time (st ! block_data) d num_workers = Inr (Some (st' ! r))) \<and>
         (res = Inr None \<longrightarrow>
              mine env elapsed_time (st ! block_data) d num_workers = Inr None) \<and>
         (\<forall>e. res = Inl e \<longrightarrow>
              mine env elapsed_time (st ! block_data) d num_workers = Inl e)"
proof (cases "calculate_target d")
  case (Inl e)
  then show ?thesis using assms by (auto simp: mine_ref_def mine_def Let_def)
next
  case (Inr target)
  let ?n = "case num_workers of None \<Rightarrow> cpu_count env | Some k \<Rightarrow> k"
  show ?thesis
  proof (cases "1 \<le> ?n")
    case False
    then show ?thesis using assms Inr by (auto simp: mine_ref_def mine_def Let_def)
  next
    case True
    then have n: "?n \<noteq> 0" "\<not> ?n < 1" by auto
    obtain args st1 where w: "worker_args_ref block_data target (nonce_step ?n) [0..?n - 1] st
        = (args, st1)" by (cases "worker_args_ref block_data target (nonce_step ?n) [0..?n - 1] st")
    obtain res2 st2 where p: "pool_map_ref env args st1 = (res2, st2)"
      by (cases "pool_map_ref env args st1")
    let ?R = "\<lambda>x. projr (mine_nonce env (st ! block_data, snd x))"
    obtain rs where rs: "res2 = Inr rs"
      and pure: "pool_map (mine_nonce env) (worker_args (st ! block_data) target ?n)
          = Inr (map ?R args)"
      and len: "length st \<le> length st2" and old: "\<forall>y<length st. st2 ! y = st ! y"
      and sel: "(first_result_ref st2 rs = None \<and> first_result (map ?R args) = None) \<or>
            (\<exists>r. first_result_ref st2 rs = Some r \<and> length st \<le> r \<and> r < length st2 \<and>
               first_result (map ?R args) = Some (st2 ! r))"
      using mine_ref_workers[OF assms(1) True w p] by blast
    have m_ref: "mine_ref env elapsed_time block_data d num_workers st =
        (if elapsed_time = 0 then (Inl ZeroDivisionError, st2)
         else (Inr (first_result_ref st2 rs), st2))"
      using Inr n w p rs by (simp add: mine_ref_def Let_def)
    have m: "mine env elapsed_time (st ! block_data) d num_workers =
        (if elapsed_time = 0 then Inl ZeroDivisionError
         else Inr (first_result (map ?R args)))"
      using Inr n pure by (simp add: mine_def Let_def)
    have st': "st' = st2" using m_ref assms(2) by (auto split: if_splits)
    have res: "res = (if elapsed_time = 0 then Inl ZeroDivisionError
         else Inr (first_result_ref st2 rs))"
      using m_ref assms(2) by (auto split: if_splits)
    have frame: "length st \<le> length st' \<and> (\<forall>x<length st. st' ! x = st ! x) \<and>
         st' ! block_data = st ! block_data"
      using len old assms(1) by (simp add: st')
    show ?thesis
    proof (cases "elapsed_time = 0")
      case True
      then show ?thesis using frame res m by simp
    next
      case False
      then have r: "res = Inr (first_result_ref st2 rs)"
        and mm: "mine env elapsed_time (st ! block_data) d num_workers
          = Inr (first_result (map ?R args))"
        using res m by simp_all
      from sel show ?thesis
      proof
        assume "first_result_ref st2 rs = None \<and> first_result (map ?R args) = None"
        then show ?thesis using frame r mm by simp
      next
        assume "\<exists>r. first_result_ref st2 rs = Some r \<and> length st \<le> r \<and> r < length st2 \<and>
               first_result (map ?R args) = Some (st2 ! r)"
        then obtain q where q: "first_result_ref st2 rs = Some q" "length st \<le> q"
          "q < length st2" "first_result (map ?R args) = Some (st2 ! q)" by blast
        then have "q \<noteq> block_data" using assms(1) by auto
        then show ?thesis using frame r mm q by (simp add: st')
      qed
    qed
  qed
qed

lemma zero_accepted: "0 < t \<Longrightarrow> accepted zero_env bd (PyInt t) n"
  by (simp add: accepted_def digest_int_def zero_env_def)

lemma mine_nonce_loop_ref_found:
  assumes "a < length st" and "n < e" and "accepted env (st ! a) target n"
  shows "mine_nonce_loop_ref env a n e target st = (Inr (Some a), st[a := mined env (st ! a) n])"
  using assms by (subst mine_nonce_loop_ref_step) simp_all

lemma example_worker_args_ref:
  "worker_args_ref 0 target 2147483648 [0, 1] [example_template] =
     ([(1, 0, 2147483648, target, 0), (2, 2147483648, 4294967296, target, 1)],
      [example_template, example_template, example_template])"
  by (simp add: dict_copy_def)

lemma example_pool_map_ref:
  "0 < t \<Longrightarrow> pool_map_ref zero_env
     [(1, 0, 2147483648, PyInt t, 0), (2, 2147483648, 4294967296, PyInt t, 1)]
     [example_template, example_template, example_template] =
   (Inr [Some 1, Some 2],
    [example_template, mined zero_env example_template 0,
     mined zero_env example_template 2147483648])"
  by (simp add: mine_nonce_ref_def mine_nonce_loop_ref_found zero_accepted)

lemma example_mine_ref:
  "mine_ref zero_env 1 0 3 (Some 2) [example_template] =
     (Inr (Some 1),
      [example_template, mined zero_env example_template 0,
       mined zero_env example_template 2147483648])"
proof -
  have u: "[0..(2::int) - 1] = [0, 1]" by (simp add: upto.simps)
  have t: "calculate_target 3 = Inr (PyInt (2 ^ 253))" by (simp add: calculate_target_def)
  have s: "nonce_step 2 = 2147483648" by (simp add: nonce_step_def max_nonce_def)
  have p: "(0::int) < 2 ^ 253" by simp
  show ?thesis
    unfolding mine_ref_def Let_def t option.case sum.case s u example_worker_args_ref prod.case
      example_pool_map_ref[OF p]
    by (simp add: truthy_def mined_nonempty)
qed

theorem mine_ref_leaves_caller_dictionary_witness:
  "(0::nat) < length [example_template] \<and>
   mine_ref zero_env 1 0 3 (Some 2) [example_template] =
     (Inr (Some 1),
      [example_template, mined zero_env example_template 0,
       mined zero_env example_template 2147483648]) \<and>
   [example_template, mined zero_env example_template 0,
    mined zero_env example_template 2147483648] ! 0 = example_template \<and>
   mine zero_env 1 ([example_template] ! 0) 3 (Some 2)
     = Inr (Some (mined zero_env example_template 0))"
proof -
  have l: "(0::nat) < length [example_template]" by simp
  show ?thesis
    using l example_mine_ref mine_ref_leaves_caller_dictionary [OF l example_mine_ref]
    by simp
qed

end
